(* ===== verification/Prelude.thy ===== *)
theory Prelude
  imports Complex_Main
begin

text \<open>
  Shared vocabulary of the development. A maze and a tilemap are both Python lists of rows
  (numpy arrays after padding), modelled as \<open>'a grid\<close>, a list of rows. \<open>cell g i j\<close> is
  \<^verbatim>\<open>g[i][j]\<close>, \<open>set_cell g i j v\<close> is the in-place assignment \<^verbatim>\<open>g[i][j] = v\<close>,
  \<open>rect R C g\<close> says that \<open>g\<close> has \<open>R\<close> rows of \<open>C\<close> cells each (numpy's
  shape), and \<open>grid_of R C f\<close> tabulates a function as a grid. The lemmas below are the
  generic facts about these and about the nested \<^verbatim>\<open>for i in range(..): for j in
  range(..)\<close> loops of the source, written as folds; the component theories use them.
\<close>

named_theorems grid_simps "rewrite rules for reading and writing cells of a grid"

type_synonym 'a grid = "'a list list"

text \<open>The Python exceptions the modelled code can raise, with \<^verbatim>\<open>pygame.error\<close> for a
  drawing call on a display surface whose display has been shut down; an operation that
  raises returns \<open>Inl\<close> of one of them.\<close>

datatype py_error = IndexError | ValueError | TypeError | AttributeError | AssertionError
  | ZeroDivisionError | PygameError

text \<open>Python's \<^verbatim>\<open>xs[k]\<close> on a list or a numpy axis: a negative index counts from the end,
  an index out of range raises IndexError.\<close>

definition py_nth :: "'a list \<Rightarrow> int \<Rightarrow> py_error + 'a" where
  "py_nth xs k =
     (let n = int (length xs); k' = (if k < 0 then n + k else k)
      in if 0 \<le> k' \<and> k' < n then Inr (xs ! nat k') else Inl IndexError)"

definition py_cell :: "'a grid \<Rightarrow> int \<Rightarrow> int \<Rightarrow> py_error + 'a" where
  "py_cell g i j = (case py_nth g i of Inl e \<Rightarrow> Inl e | Inr r \<Rightarrow> py_nth r j)"

definition cell :: "'a grid \<Rightarrow> nat \<Rightarrow> nat \<Rightarrow> 'a" where
  "cell g i j = g ! i ! j"

definition set_cell :: "'a grid \<Rightarrow> nat \<Rightarrow> nat \<Rightarrow> 'a \<Rightarrow> 'a grid" where
  "set_cell g i j v = g[i := (g ! i)[j := v]]"

definition rect :: "nat \<Rightarrow> nat \<Rightarrow> 'a grid \<Rightarrow> bool" where
  "rect R C g \<longleftrightarrow> length g = R \<and> list_all (\<lambda>r. length r = C) g"

definition grid_of :: "nat \<Rightarrow> nat \<Rightarrow> (nat \<Rightarrow> nat \<Rightarrow> 'a) \<Rightarrow> 'a grid" where
  "grid_of R C f = map (\<lambda>i. map (\<lambda>j. f i j) [0..<C]) [0..<R]"

text \<open>The row-major sequence of cells visited by two nested range loops.\<close>

definition cells_between :: "nat \<Rightarrow> nat \<Rightarrow> nat \<Rightarrow> nat \<Rightarrow> (nat \<times> nat) list" where
  "cells_between i0 i1 j0 j1 = List.product [i0..<i1] [j0..<j1]"

subsection \<open>Cells of a rectangular grid\<close>

lemma py_cell_in_range [grid_simps]:
  "rect R C g \<Longrightarrow> 0 \<le> i \<Longrightarrow> i < int R \<Longrightarrow> 0 \<le> j \<Longrightarrow> j < int C
   \<Longrightarrow> py_cell g i j = Inr (cell g (nat i) (nat j))"
  by (simp add: py_cell_def py_nth_def cell_def rect_def list_all_length)

lemma rect_row_length [grid_simps]:
  "rect R C g \<Longrightarrow> i < R \<Longrightarrow> length (g ! i) = C"
  by (simp add: rect_def list_all_length)

lemma rect_length [grid_simps]: "rect R C g \<Longrightarrow> length g = R"
  by (simp add: rect_def)

lemma rect_set_cell [grid_simps]: "rect R C g \<Longrightarrow> rect R C (set_cell g i j v)"
  by (cases "i < length g")
     (auto simp: rect_def set_cell_def list_all_length nth_list_update)

lemma cell_set_cell [grid_simps]:
  assumes "rect R C g" "i < R" "j < C"
  shows "cell (set_cell g i j v) a b = (if a = i \<and> b = j then v else cell g a b)"
  using assms by (auto simp: cell_def set_cell_def rect_def list_all_length nth_list_update)

lemma cell_set_cell_other [grid_simps]:
  "(a, b) \<noteq> (i, j) \<Longrightarrow> cell (set_cell g i j v) a b = cell g a b"
  by (cases "i < length g") (auto simp: cell_def set_cell_def nth_list_update list_update_beyond)

lemma set_cell_set_cell [grid_simps]: "set_cell (set_cell g i j v) i j w = set_cell g i j w"
  by (cases "i < length g") (simp_all add: set_cell_def list_update_beyond)

lemma set_cell_same [grid_simps]: "set_cell g i j (cell g i j) = g"
  by (simp add: set_cell_def cell_def)

lemma rect_grid_of [grid_simps]: "rect R C (grid_of R C f)"
  by (simp add: rect_def grid_of_def list_all_iff)

lemma cell_grid_of [grid_simps]: "i < R \<Longrightarrow> j < C \<Longrightarrow> cell (grid_of R C f) i j = f i j"
  by (simp add: cell_def grid_of_def)

text \<open>Two rectangular grids of the same shape are equal when they agree on every cell.\<close>

lemma grid_eqI:
  assumes "rect R C g" "rect R C h" "\<And>i j. i < R \<Longrightarrow> j < C \<Longrightarrow> cell g i j = cell h i j"
  shows "g = h"
proof (rule nth_equalityI)
  show "length g = length h" using assms(1,2) by (simp add: rect_def)
next
  fix i assume "i < length g"
  with assms show "g ! i = h ! i"
    by (intro nth_equalityI) (auto simp: rect_def list_all_length cell_def)
qed

lemma grid_of_eqI:
  "rect R C g \<Longrightarrow> (\<And>i j. i < R \<Longrightarrow> j < C \<Longrightarrow> cell g i j = f i j) \<Longrightarrow> g = grid_of R C f"
  by (rule grid_eqI [where R = R and C = C]) (simp_all add: rect_grid_of cell_grid_of)

subsection \<open>Nested range loops as one fold over cells\<close>

lemma set_cells_between [simp]:
  "set (cells_between i0 i1 j0 j1) = {i0..<i1} \<times> {j0..<j1}"
  by (simp add: cells_between_def)

lemma distinct_cells_between [simp]: "distinct (cells_between i0 i1 j0 j1)"
  by (simp add: cells_between_def distinct_product)

lemma fold_product:
  "fold (\<lambda>i. fold (\<lambda>j. f (i, j)) ys) xs s = fold f (List.product xs ys) s"
  by (induction xs arbitrary: s) (simp_all add: fold_map o_def)

text \<open>
  The source's loops read the row length \<^verbatim>\<open>len(maze[0])\<close> from the grid being
  updated at the start of every inner loop. A body that keeps the grid's shape makes that
  the original row length, and the two loops one fold over the cells in row-major order.
\<close>

lemma fold_rows_cells:
  assumes "rect R C g" "0 < R"
    and keep: "\<And>m i j. rect R C m \<Longrightarrow> rect R C (f m i j)"
  shows "fold (\<lambda>i m. fold (\<lambda>j m. f m i j) [1..<length (m ! 0) - 1] m) xs g
       = fold (\<lambda>(i, j) m. f m i j) (List.product xs [1..<C - 1]) g"
  using assms(1)
proof (induction xs arbitrary: g)
  case Nil
  then show ?case by simp
next
  case (Cons i xs)
  have inner: "rect R C (fold (\<lambda>j m. f m i j) ys m)" if "rect R C m" for ys m
    using that by (induction ys arbitrary: m) (simp_all add: keep)
  let ?g = "fold (\<lambda>j m. f m i j) [1..<C - 1] g"
  have "length (g ! 0) = C" using Cons.prems \<open>0 < R\<close> by (simp add: rect_row_length)
  moreover have "fold (\<lambda>i m. fold (\<lambda>j m. f m i j) [1..<length (m ! 0) - 1] m) xs ?g
      = fold (\<lambda>(i, j) m. f m i j) (List.product xs [1..<C - 1]) ?g"
    by (rule Cons.IH [OF inner [OF Cons.prems]])
  moreover have "?g = fold (\<lambda>(i, j) m. f m i j) (map (Pair i) [1..<C - 1]) g"
    by (simp add: fold_map o_def)
  ultimately show ?case by simp
qed

text \<open>A loop whose body keeps the shape of the grid keeps it.\<close>

lemma rect_fold:
  "(\<And>x m. rect R C m \<Longrightarrow> rect R C (f x m)) \<Longrightarrow> rect R C g \<Longrightarrow> rect R C (fold f xs g)"
  by (induction xs arbitrary: g) simp_all

text \<open>
  A fold that writes each visited cell once, with a value computed from the cell's
  current content, leaves every visited cell at that value of its original content.
\<close>

lemma cell_fold_set_cells:
  assumes "rect R C g" "distinct cs" "\<forall>(i, j) \<in> set cs. i < R \<and> j < C"
  shows "cell (fold (\<lambda>(i, j) m. set_cell m i j (H (cell m i j) i j)) cs g) a b
       = (if (a, b) \<in> set cs then H (cell g a b) a b else cell g a b)"
  using assms
proof (induction cs arbitrary: g)
  case Nil
  then show ?case by simp
next
  case (Cons c cs)
  obtain i j where c: "c = (i, j)" by (cases c)
  let ?g = "set_cell g i j (H (cell g i j) i j)"
  have r: "rect R C ?g" using Cons.prems(1) by (rule rect_set_cell)
  have ij: "i < R" "j < C" using Cons.prems(3) c by auto
  have rest: "distinct cs" "\<forall>(i, j) \<in> set cs. i < R \<and> j < C" using Cons.prems(2,3) by auto
  have "(i, j) \<notin> set cs" using Cons.prems(2) c by simp
  then show ?case
    using Cons.IH [OF r rest] c ij Cons.prems(1) by (auto simp: cell_set_cell)
qed

text \<open>
  A fold that writes a constant below each visited cell that satisfies a test leaves
  exactly the cells below the satisfying ones at that constant.
\<close>

lemma cell_fold_mark_below:
  assumes "rect R C g" "\<forall>(i, j) \<in> set cs. Suc i < R \<and> j < C"
  shows "cell (fold (\<lambda>(i, j) m. if Q i j then set_cell m (Suc i) j v else m) cs g) a b
       = (if \<exists>(i, j) \<in> set cs. Q i j \<and> a = Suc i \<and> b = j then v else cell g a b)"
  using assms
proof (induction cs arbitrary: g)
  case Nil
  then show ?case by simp
next
  case (Cons c cs)
  obtain i j where c: "c = (i, j)" by (cases c)
  let ?g = "if Q i j then set_cell g (Suc i) j v else g"
  have r: "rect R C ?g" using Cons.prems(1) by (simp add: rect_set_cell)
  have ij: "Suc i < R" "j < C" using Cons.prems(2) c by auto
  have rest: "\<forall>(i, j) \<in> set cs. Suc i < R \<and> j < C" using Cons.prems(2) by auto
  show ?case
    using Cons.IH [OF r rest] c ij Cons.prems(1) by (auto simp: cell_set_cell)
qed

subsection \<open>Row-major indices\<close>

text \<open>\<open>i * w + j\<close> encodes a cell of an \<open>h\<close> by \<open>w\<close> grid; \<open>div\<close> and \<open>mod\<close> by \<open>w\<close> decode it.\<close>

lemma row_major_roundtrip: "0 \<le> (j::int) \<Longrightarrow> j < w \<Longrightarrow> 0 \<le> i \<Longrightarrow> i < h \<Longrightarrow>
  (i * w + j) div w = i \<and> (i * w + j) mod w = j \<and> 0 \<le> i * w + j \<and> i * w + j < w * h"
proof -
  assume a: "0 \<le> j" "j < w" "0 \<le> i" "i < h"
  have "(j + i * w) div w = j div w + i" using a by simp
  moreover have "j div w = 0" "j mod w = 0 + j" using a by simp_all
  moreover have "i * w + j < w * h"
  proof -
    have "i * w + j < (i + 1) * w" using a by (simp add: algebra_simps)
    also have "\<dots> \<le> h * w" using a by (intro mult_right_mono) simp_all
    finally show ?thesis by (simp add: mult.commute)
  qed
  ultimately show ?thesis using a by (simp add: add.commute)
qed
end
