(* ===== verification/Tile.thy ===== *)
theory Tile
  imports Prelude
begin

text \<open>
  The tile catalog, \<^verbatim>\<open>maze_env.graphics.Tile\<close>: the enumeration of tile kinds that
  \<^verbatim>\<open>Tilemap.py\<close> writes into a tilemap. The module itself is not part of the
  repository's sources, so the type is modelled from the specification (section 3, Tile
  Kind): one constructor per member, named as the source uses them. The source only
  compares members' values for equality, so their numeric values (indices into the
  tileset) are not modelled; the members are pairwise distinct, as a datatype's
  constructors are.
\<close>

datatype tile =
    EMPTY
  | PATH
  | PLATFORM
  | CENTER
  | LEFT_TO_RIGHT
  | TOP_TO_BOTTOM
  | OUTER_LEFT_WALL
  | INNER_LEFT_WALL
  | TOP_LEFT_WALL
  | OUTER_TOP_WALL
  | INNER_TOP_WALL
  | TOP_RIGHT_WALL
  | OUTER_RIGHT_WALL
  | INNER_RIGHT_WALL
  | BOTTOM_RIGHT_WALL
  | OUTER_BOTTOM_WALL
  | INNER_BOTTOM_WALL
  | BOTTOM_LEFT_WALL

end
