(* ===== verification/Tilemap.thy ===== *)
theory Tilemap
  imports Tile
begin

text \<open>
  The tile classification engine, \<^verbatim>\<open>src/src/maze_env/graphics/Tilemap.py\<close>. The fifteen
  neighbourhood tests \<^verbatim>\<open>is_outer_left_wall\<close> .. \<^verbatim>\<open>is_center\<close>, the in-place
  classification pass and the platform pass of \<^verbatim>\<open>Tilemap._generate_map\<close>, the
  constructor \<^verbatim>\<open>Tilemap.__init__\<close> and the draw list of \<^verbatim>\<open>Tilemap.render\<close>. After the
  definitions of the code come a reference classification, stated cell by cell
  (\<open>first_tile\<close>, \<open>final_tile\<close>, \<open>tilemap_spec\<close>), and the proof that the two
  in-place passes compute it.
\<close>

subsection \<open>Neighbourhood tests\<close>

text \<open>Each test reads the four orthogonal neighbours of \<open>(i, j)\<close>, never the cell itself.\<close>

fun is_outer_left_wall :: "nat \<times> nat \<Rightarrow> tile grid \<Rightarrow> bool" where
  "is_outer_left_wall (i, j) maze \<longleftrightarrow>
     cell maze (i - 1) j = EMPTY \<and> cell maze (i + 1) j = EMPTY \<and>
     cell maze i (j - 1) = EMPTY \<and> cell maze i (j + 1) \<noteq> EMPTY"

fun is_inner_left_wall :: "nat \<times> nat \<Rightarrow> tile grid \<Rightarrow> bool" where
  "is_inner_left_wall (i, j) maze \<longleftrightarrow>
     cell maze (i - 1) j \<noteq> EMPTY \<and> cell maze (i + 1) j \<noteq> EMPTY \<and>
     cell maze i (j - 1) = EMPTY \<and> cell maze i (j + 1) \<noteq> EMPTY"

fun is_top_left_wall :: "nat \<times> nat \<Rightarrow> tile grid \<Rightarrow> bool" where
  "is_top_left_wall (i, j) maze \<longleftrightarrow>
     cell maze (i - 1) j = EMPTY \<and> cell maze (i + 1) j \<noteq> EMPTY \<and>
     cell maze i (j - 1) = EMPTY \<and> cell maze i (j + 1) \<noteq> EMPTY"

fun is_outer_top_wall :: "nat \<times> nat \<Rightarrow> tile grid \<Rightarrow> bool" where
  "is_outer_top_wall (i, j) maze \<longleftrightarrow>
     cell maze (i - 1) j = EMPTY \<and> cell maze (i + 1) j \<noteq> EMPTY \<and>
     cell maze i (j - 1) = EMPTY \<and> cell maze i (j + 1) = EMPTY"

fun is_inner_top_wall :: "nat \<times> nat \<Rightarrow> tile grid \<Rightarrow> bool" where
  "is_inner_top_wall (i, j) maze \<longleftrightarrow>
     cell maze (i - 1) j = EMPTY \<and> cell maze (i + 1) j \<noteq> EMPTY \<and>
     cell maze i (j - 1) \<noteq> EMPTY \<and> cell maze i (j + 1) \<noteq> EMPTY"

fun is_top_right_wall :: "nat \<times> nat \<Rightarrow> tile grid \<Rightarrow> bool" where
  "is_top_right_wall (i, j) maze \<longleftrightarrow>
     cell maze (i + 1) j \<noteq> EMPTY \<and> cell maze (i - 1) j = EMPTY \<and>
     cell maze i (j - 1) \<noteq> EMPTY \<and> cell maze i (j + 1) = EMPTY"

fun is_outer_right_wall :: "nat \<times> nat \<Rightarrow> tile grid \<Rightarrow> bool" where
  "is_outer_right_wall (i, j) maze \<longleftrightarrow>
     cell maze (i - 1) j = EMPTY \<and> cell maze (i + 1) j = EMPTY \<and>
     cell maze i (j - 1) \<noteq> EMPTY \<and> cell maze i (j + 1) = EMPTY"

fun is_inner_right_wall :: "nat \<times> nat \<Rightarrow> tile grid \<Rightarrow> bool" where
  "is_inner_right_wall (i, j) maze \<longleftrightarrow>
     cell maze (i - 1) j \<noteq> EMPTY \<and> cell maze (i + 1) j \<noteq> EMPTY \<and>
     cell maze i (j - 1) \<noteq> EMPTY \<and> cell maze i (j + 1) = EMPTY"

fun is_bottom_right_wall :: "nat \<times> nat \<Rightarrow> tile grid \<Rightarrow> bool" where
  "is_bottom_right_wall (i, j) maze \<longleftrightarrow>
     cell maze (i - 1) j \<noteq> EMPTY \<and> cell maze (i + 1) j = EMPTY \<and>
     cell maze i (j - 1) \<noteq> EMPTY \<and> cell maze i (j + 1) = EMPTY"

fun is_outer_bottom_wall :: "nat \<times> nat \<Rightarrow> tile grid \<Rightarrow> bool" where
  "is_outer_bottom_wall (i, j) maze \<longleftrightarrow>
     cell maze (i - 1) j \<noteq> EMPTY \<and> cell maze (i + 1) j = EMPTY \<and>
     cell maze i (j - 1) = EMPTY \<and> cell maze i (j + 1) = EMPTY"

fun is_inner_bottom_wall :: "nat \<times> nat \<Rightarrow> tile grid \<Rightarrow> bool" where
  "is_inner_bottom_wall (i, j) maze \<longleftrightarrow>
     cell maze (i - 1) j \<noteq> EMPTY \<and> cell maze (i + 1) j = EMPTY \<and>
     cell maze i (j - 1) \<noteq> EMPTY \<and> cell maze i (j + 1) \<noteq> EMPTY"

fun is_bottom_left_wall :: "nat \<times> nat \<Rightarrow> tile grid \<Rightarrow> bool" where
  "is_bottom_left_wall (i, j) maze \<longleftrightarrow>
     cell maze (i - 1) j \<noteq> EMPTY \<and> cell maze (i + 1) j = EMPTY \<and>
     cell maze i (j - 1) = EMPTY \<and> cell maze i (j + 1) \<noteq> EMPTY"

fun is_left_to_right :: "nat \<times> nat \<Rightarrow> tile grid \<Rightarrow> bool" where
  "is_left_to_right (i, j) maze \<longleftrightarrow>
     cell maze (i - 1) j = EMPTY \<and> cell maze (i + 1) j = EMPTY \<and>
     cell maze i (j - 1) \<noteq> EMPTY \<and> cell maze i (j + 1) \<noteq> EMPTY"

fun is_top_to_bottom :: "nat \<times> nat \<Rightarrow> tile grid \<Rightarrow> bool" where
  "is_top_to_bottom (i, j) maze \<longleftrightarrow>
     cell maze (i - 1) j \<noteq> EMPTY \<and> cell maze (i + 1) j \<noteq> EMPTY \<and>
     cell maze i (j - 1) = EMPTY \<and> cell maze i (j + 1) = EMPTY"

fun is_center :: "nat \<times> nat \<Rightarrow> tile grid \<Rightarrow> bool" where
  "is_center (i, j) maze \<longleftrightarrow>
     cell maze (i - 1) j \<notin> set [EMPTY, PLATFORM] \<and> cell maze (i + 1) j \<notin> set [EMPTY, PLATFORM] \<and>
     cell maze i (j - 1) \<notin> set [EMPTY, PLATFORM] \<and> cell maze i (j + 1) \<notin> set [EMPTY, PLATFORM]"

subsection \<open>The two passes of \<^verbatim>\<open>_generate_map\<close>\<close>

text \<open>
  The body of the first pass is fifteen \<^verbatim>\<open>if test((i, j), maze): maze[i][j] = KIND\<close>
  statements in a fixed order, each reading the grid as the previous ones left it. They
  are the rule table below, applied in order by a fold.
\<close>

type_synonym rule = "(nat \<times> nat \<Rightarrow> tile grid \<Rightarrow> bool) \<times> tile"

definition wall_rules :: "rule list" where
  "wall_rules =
     [(is_outer_left_wall, OUTER_LEFT_WALL), (is_inner_left_wall, INNER_LEFT_WALL),
      (is_top_left_wall, TOP_LEFT_WALL), (is_outer_top_wall, OUTER_TOP_WALL),
      (is_inner_top_wall, INNER_TOP_WALL), (is_top_right_wall, TOP_RIGHT_WALL),
      (is_outer_right_wall, OUTER_RIGHT_WALL), (is_inner_right_wall, INNER_RIGHT_WALL),
      (is_bottom_right_wall, BOTTOM_RIGHT_WALL), (is_outer_bottom_wall, OUTER_BOTTOM_WALL),
      (is_inner_bottom_wall, INNER_BOTTOM_WALL), (is_bottom_left_wall, BOTTOM_LEFT_WALL),
      (is_left_to_right, LEFT_TO_RIGHT), (is_top_to_bottom, TOP_TO_BOTTOM),
      (is_center, CENTER)]"

definition apply_rule :: "nat \<Rightarrow> nat \<Rightarrow> tile grid \<Rightarrow> rule \<Rightarrow> tile grid" where
  "apply_rule i j maze r = (if fst r (i, j) maze then set_cell maze i j (snd r) else maze)"

definition classify_cell :: "tile grid \<Rightarrow> nat \<Rightarrow> nat \<Rightarrow> tile grid" where
  "classify_cell maze i j =
     (if cell maze i j = PATH then fold (\<lambda>r m. apply_rule i j m r) wall_rules maze else maze)"

definition first_pass :: "tile grid \<Rightarrow> tile grid" where
  "first_pass maze =
     fold (\<lambda>i m. fold (\<lambda>j m. classify_cell m i j) [1..<length (m ! 0) - 1] m)
       [1..<length maze - 1] maze"

text \<open>The second pass: the kinds below which a platform is drawn.\<close>

definition platform_kinds :: "tile list" where
  "platform_kinds =
     [OUTER_LEFT_WALL, LEFT_TO_RIGHT, BOTTOM_LEFT_WALL, OUTER_BOTTOM_WALL,
      INNER_BOTTOM_WALL, BOTTOM_RIGHT_WALL, OUTER_RIGHT_WALL]"

definition mark_platform :: "tile grid \<Rightarrow> nat \<Rightarrow> nat \<Rightarrow> tile grid" where
  "mark_platform maze i j =
     (if cell maze i j \<in> set platform_kinds then set_cell maze (i + 1) j PLATFORM else maze)"

definition platform_pass :: "tile grid \<Rightarrow> tile grid" where
  "platform_pass maze =
     fold (\<lambda>i m. fold (\<lambda>j m. mark_platform m i j) [1..<length (m ! 0) - 1] m)
       [1..<length maze - 1] maze"

text \<open>
  The preparation: cells of the generator's maze are \<open>0\<close> for a passage and anything
  else for a wall; \<^verbatim>\<open>np.pad(maze, 1, constant_values=EMPTY)\<close> adds a border of one cell.
  numpy refuses a ragged list of rows with a ValueError.
\<close>

definition to_tiles :: "int grid \<Rightarrow> tile grid" where
  "to_tiles maze = map (map (\<lambda>c. if c = 0 then PATH else EMPTY)) maze"

definition pad :: "'a \<Rightarrow> 'a grid \<Rightarrow> 'a grid" where
  "pad v g =
     (let C = length (g ! 0)
      in replicate (C + 2) v # map (\<lambda>r. v # r @ [v]) g @ [replicate (C + 2) v])"

definition generate_map :: "int grid \<Rightarrow> py_error + tile grid" where
  "generate_map maze =
     (if rect (length maze) (length (maze ! 0)) maze
      then Inr (platform_pass (first_pass (pad EMPTY (to_tiles maze))))
      else Inl ValueError)"

subsection \<open>The \<^verbatim>\<open>Tilemap\<close> object\<close>

text \<open>
  \<^verbatim>\<open>Tilemap.__init__\<close> stores \<^verbatim>\<open>len(maze)\<close> as its width and \<^verbatim>\<open>len(maze[0])\<close>
  (an IndexError on an empty maze) as its height, then the generated map. The tileset
  and the fixed tile size of 32 pixels are not part of the state.
\<close>

record tilemap =
  tm_width :: nat
  tm_height :: nat
  tm_tiles :: "tile grid"

definition make_tilemap :: "int grid \<Rightarrow> py_error + tilemap" where
  "make_tilemap maze =
     (case maze of
        [] \<Rightarrow> Inl IndexError
      | r # _ \<Rightarrow>
          (case generate_map maze of
             Inl e \<Rightarrow> Inl e
           | Inr t \<Rightarrow> Inr \<lparr>tm_width = length maze, tm_height = length r, tm_tiles = t\<rparr>))"

text \<open>
  Drawing is a list of operations on the surface: a fill with a colour, or a blit of one
  tileset image at a pixel position. \<^verbatim>\<open>Tilemap.render\<close> blits the image of tile
  \<open>(i, j)\<close> at \<open>(32 i, 32 j)\<close>, over the whole padded map.
\<close>

datatype sprite = Tile_sprite tile | Tileset_image nat

datatype draw_op = Fill "nat \<times> nat \<times> nat" | Blit sprite "int \<times> int"

definition render_tilemap :: "tilemap \<Rightarrow> draw_op list" where
  "render_tilemap tm =
     (let t = tm_tiles tm
      in concat (map (\<lambda>i. map (\<lambda>j. Blit (Tile_sprite (cell t i j)) (int i * 32, int j * 32))
                               [0..<length (t ! 0)]) [0..<length t]))"

text \<open>\<^verbatim>\<open>__str__\<close> names the class.\<close>

definition tilemap_str :: "tilemap \<Rightarrow> string" where
  "tilemap_str tm = ''Tilemap''"

subsection \<open>Reference classification, cell by cell\<close>

text \<open>
  \<open>classify_pattern u d l r\<close> is the kind the fifteen tests give a passage cell whose
  upper, lower, left and right neighbours are open (not EMPTY) as the flags say. The
  sixteen combinations are all covered: the one with no open neighbour keeps PATH.
\<close>

fun classify_pattern :: "bool \<Rightarrow> bool \<Rightarrow> bool \<Rightarrow> bool \<Rightarrow> tile" where
  "classify_pattern False False False True = OUTER_LEFT_WALL"
| "classify_pattern True True False True = INNER_LEFT_WALL"
| "classify_pattern False True False True = TOP_LEFT_WALL"
| "classify_pattern False True False False = OUTER_TOP_WALL"
| "classify_pattern False True True True = INNER_TOP_WALL"
| "classify_pattern False True True False = TOP_RIGHT_WALL"
| "classify_pattern False False True False = OUTER_RIGHT_WALL"
| "classify_pattern True True True False = INNER_RIGHT_WALL"
| "classify_pattern True False True False = BOTTOM_RIGHT_WALL"
| "classify_pattern True False False False = OUTER_BOTTOM_WALL"
| "classify_pattern True False True True = INNER_BOTTOM_WALL"
| "classify_pattern True False False True = BOTTOM_LEFT_WALL"
| "classify_pattern False False True True = LEFT_TO_RIGHT"
| "classify_pattern True True False False = TOP_TO_BOTTOM"
| "classify_pattern True True True True = CENTER"
| "classify_pattern False False False False = PATH"

definition open_at :: "tile grid \<Rightarrow> nat \<Rightarrow> nat \<Rightarrow> bool" where
  "open_at g i j \<longleftrightarrow> cell g i j \<noteq> EMPTY"

definition interior :: "'a grid \<Rightarrow> nat \<Rightarrow> nat \<Rightarrow> bool" where
  "interior g i j \<longleftrightarrow> 1 \<le> i \<and> i < length g - 1 \<and> 1 \<le> j \<and> j < length (g ! 0) - 1"

definition first_tile :: "tile grid \<Rightarrow> nat \<Rightarrow> nat \<Rightarrow> tile" where
  "first_tile P i j =
     (if interior P i j \<and> cell P i j = PATH
      then classify_pattern (open_at P (i - 1) j) (open_at P (i + 1) j)
             (open_at P i (j - 1)) (open_at P i (j + 1))
      else cell P i j)"

definition final_tile :: "tile grid \<Rightarrow> nat \<Rightarrow> nat \<Rightarrow> tile" where
  "final_tile P i j =
     (if 2 \<le> i \<and> interior P (i - 1) j \<and> first_tile P (i - 1) j \<in> set platform_kinds
      then PLATFORM else first_tile P i j)"

definition tilemap_spec :: "int grid \<Rightarrow> tile grid" where
  "tilemap_spec maze =
     (let P = pad EMPTY (to_tiles maze) in grid_of (length P) (length (P ! 0)) (final_tile P))"

subsection \<open>Loop invariants of the two passes\<close>

text \<open>
  The loop invariant of the first pass: the grid keeps the shape of the padded grid, the
  same open and closed cells, and holds no platform; so every test reads what it would
  read in the padded grid.
\<close>

definition agrees_with :: "nat \<Rightarrow> nat \<Rightarrow> tile grid \<Rightarrow> tile grid \<Rightarrow> bool" where
  "agrees_with R C P m \<longleftrightarrow>
     rect R C m \<and> (\<forall>a < R. \<forall>b < C. open_at m a b = open_at P a b \<and> cell m a b \<noteq> PLATFORM)"

definition classify_from :: "tile grid \<Rightarrow> tile \<Rightarrow> nat \<Rightarrow> nat \<Rightarrow> tile" where
  "classify_from P t i j =
     (if t = PATH then classify_pattern (open_at P (i - 1) j) (open_at P (i + 1) j)
                        (open_at P i (j - 1)) (open_at P i (j + 1))
      else t)"

text \<open>
  The platform pass reads kinds that it may itself have overwritten. It never overwrites
  a kind that matters: the cell below a platform-carrying kind is never itself one, so
  every read sees the kind the first pass left.
\<close>

definition platform_from :: "tile grid \<Rightarrow> nat \<Rightarrow> nat \<Rightarrow> tile" where
  "platform_from F a b =
     (if 2 \<le> a \<and> interior F (a - 1) b \<and> cell F (a - 1) b \<in> set platform_kinds
      then PLATFORM else cell F a b)"

definition marks_agree :: "nat \<Rightarrow> nat \<Rightarrow> tile grid \<Rightarrow> tile grid \<Rightarrow> bool" where
  "marks_agree R C F m \<longleftrightarrow>
     rect R C m \<and> (\<forall>a < R. \<forall>b < C. (cell m a b \<in> set platform_kinds) = (cell F a b \<in> set platform_kinds))"

subsection \<open>The fifteen tests\<close>

lemma classify_pattern_not_empty: "classify_pattern u d l r \<noteq> EMPTY"
  and classify_pattern_not_platform: "classify_pattern u d l r \<noteq> PLATFORM"
  by (cases u; cases d; cases l; cases r; simp)+

lemma classify_pattern_platform_kinds:
  "classify_pattern u d l r \<in> set platform_kinds \<Longrightarrow> \<not> d"
  by (cases u; cases d; cases l; cases r; simp add: platform_kinds_def)

text \<open>
  The tests never read the cell they classify: writing that cell leaves every test's
  answer as it was. So the fold over the rule table is the last matching rule's kind, and
  on a grid without platforms that kind is determined by which neighbours are open.
\<close>

lemma wall_rules_set_cell:
  assumes "1 \<le> i" "1 \<le> j" "r \<in> set wall_rules"
  shows "fst r (i, j) (set_cell m i j t) = fst r (i, j) m"
proof -
  have "i - 1 \<noteq> i" "i + 1 \<noteq> i" "j - 1 \<noteq> j" "j + 1 \<noteq> j" using assms(1,2) by arith+
  then show ?thesis using assms(3) by (auto simp: wall_rules_def cell_set_cell_other)
qed

lemma fold_apply_rule:
  assumes "1 \<le> i" "1 \<le> j" "set rs \<subseteq> set wall_rules"
  shows "fold (\<lambda>r m. apply_rule i j m r) rs m =
         (case filter (\<lambda>r. fst r (i, j) m) rs of [] \<Rightarrow> m | fs \<Rightarrow> set_cell m i j (snd (last fs)))"
  using assms(3)
proof (induction rs arbitrary: m rule: rev_induct)
  case Nil
  then show ?case by simp
next
  case (snoc r rs)
  have r: "r \<in> set wall_rules" and rs: "set rs \<subseteq> set wall_rules" using snoc.prems by auto
  have keep: "fst r (i, j) (set_cell m i j t) = fst r (i, j) m" for t
    by (rule wall_rules_set_cell [OF assms(1,2) r])
  show ?case
    using snoc.IH [OF rs]
    by (auto simp: apply_rule_def keep set_cell_set_cell split: list.splits)
qed

text \<open>
  C2. At most one of the fifteen tests of the first pass holds at any cell of any grid,
  whatever its shape: the tests partition the sixteen open/closed combinations of the four
  neighbours, less the all-closed one, so the order of the tests never decides a kind.
\<close>

lemma wall_rules_exclusive: "length (filter (\<lambda>r. fst r (i, j) m) wall_rules) \<le> 1"
  by (cases "cell m (i - 1) j = EMPTY"; cases "cell m (i + 1) j = EMPTY";
      cases "cell m i (j - 1) = EMPTY"; cases "cell m i (j + 1) = EMPTY")
     (simp_all add: wall_rules_def)

lemma classify_cell_pattern:
  assumes "1 \<le> i" "1 \<le> j" "cell m i j = PATH"
    and "cell m (i - 1) j \<noteq> PLATFORM" "cell m (i + 1) j \<noteq> PLATFORM"
    and "cell m i (j - 1) \<noteq> PLATFORM" "cell m i (j + 1) \<noteq> PLATFORM"
  shows "classify_cell m i j =
           set_cell m i j (classify_pattern (open_at m (i - 1) j) (open_at m (i + 1) j)
                             (open_at m i (j - 1)) (open_at m i (j + 1)))"
proof -
  have "fold (\<lambda>r m. apply_rule i j m r) wall_rules m =
        (case filter (\<lambda>r. fst r (i, j) m) wall_rules of [] \<Rightarrow> m
         | fs \<Rightarrow> set_cell m i j (snd (last fs)))"
    using assms(1,2) by (rule fold_apply_rule) simp
  also have "\<dots> = set_cell m i j (classify_pattern (open_at m (i - 1) j) (open_at m (i + 1) j)
                             (open_at m i (j - 1)) (open_at m i (j + 1)))"
    using assms(3-7)
    by (cases "cell m (i - 1) j = EMPTY"; cases "cell m (i + 1) j = EMPTY";
        cases "cell m i (j - 1) = EMPTY"; cases "cell m i (j + 1) = EMPTY")
       (simp_all add: wall_rules_def open_at_def set_cell_same [of m i j, simplified assms(3)])
  finally show ?thesis using assms(3) by (simp add: classify_cell_def)
qed

subsection \<open>The first pass computes the reference classification\<close>

lemma rect_classify_cell: "rect R C m \<Longrightarrow> rect R C (classify_cell m i j)"
  by (auto simp: classify_cell_def apply_rule_def rect_set_cell intro: rect_fold)

lemma interior_cells_between:
  "rect R C P \<Longrightarrow> 0 < R \<Longrightarrow> interior P i j \<longleftrightarrow> (i, j) \<in> set (cells_between 1 (R - 1) 1 (C - 1))"
  by (auto simp: interior_def rect_length rect_row_length)

lemma classify_cell_agrees:
  assumes ag: "agrees_with R C P m" and ij: "(i, j) \<in> set (cells_between 1 (R - 1) 1 (C - 1))"
  shows "classify_cell m i j = set_cell m i j (classify_from P (cell m i j) i j)"
    and "agrees_with R C P (set_cell m i j (classify_from P (cell m i j) i j))"
proof -
  have b: "1 \<le> i" "i + 1 < R" "1 \<le> j" "j + 1 < C" using ij by auto
  have nb: "open_at m a b = open_at P a b" "cell m a b \<noteq> PLATFORM" if "a < R" "b < C" for a b
    using ag that by (auto simp: agrees_with_def)
  have r: "rect R C m" using ag by (simp add: agrees_with_def)
  show "classify_cell m i j = set_cell m i j (classify_from P (cell m i j) i j)"
  proof (cases "cell m i j = PATH")
    case True
    have "i - 1 < R" "i < R" "j - 1 < C" "j < C" using b by arith+
    with True b show ?thesis
      by (simp add: classify_cell_pattern nb classify_from_def)
  next
    case False
    then show ?thesis by (simp add: classify_cell_def classify_from_def set_cell_same)
  qed
  let ?t = "classify_from P (cell m i j) i j"
  have iR: "i < R" "j < C" using b by arith+
  have t: "?t \<noteq> EMPTY \<longleftrightarrow> cell m i j \<noteq> EMPTY" "?t \<noteq> PLATFORM"
    using nb(2) [OF iR]
    by (auto simp: classify_from_def classify_pattern_not_empty classify_pattern_not_platform)
  show "agrees_with R C P (set_cell m i j ?t)"
    unfolding agrees_with_def
  proof (intro conjI allI impI)
    show "rect R C (set_cell m i j ?t)" using r by (rule rect_set_cell)
  next
    fix a b assume ab: "a < R" "b < C"
    show "open_at (set_cell m i j ?t) a b = open_at P a b"
      using nb(1) [OF ab] nb(1) [OF iR] t(1) by (simp add: cell_set_cell [OF r iR] open_at_def)
    show "cell (set_cell m i j ?t) a b \<noteq> PLATFORM"
      using nb(2) [OF ab] t(2) by (simp add: cell_set_cell [OF r iR])
  qed
qed

lemma fold_classify_cell:
  assumes "agrees_with R C P m" "set cs \<subseteq> set (cells_between 1 (R - 1) 1 (C - 1))"
  shows "fold (\<lambda>(i, j) m. classify_cell m i j) cs m
       = fold (\<lambda>(i, j) m. set_cell m i j (classify_from P (cell m i j) i j)) cs m"
  using assms
proof (induction cs arbitrary: m)
  case Nil
  then show ?case by simp
next
  case (Cons c cs)
  obtain i j where c: "c = (i, j)" by (cases c)
  have ij: "(i, j) \<in> set (cells_between 1 (R - 1) 1 (C - 1))" using Cons.prems(2) c by simp
  show ?case
    using Cons.IH [OF classify_cell_agrees(2) [OF Cons.prems(1) ij]] Cons.prems(2) c
          classify_cell_agrees(1) [OF Cons.prems(1) ij]
    by simp
qed

theorem first_pass_spec:
  assumes "rect R C P" "2 \<le> R" "\<forall>a < R. \<forall>b < C. cell P a b \<noteq> PLATFORM"
  shows "first_pass P = grid_of R C (first_tile P)"
proof -
  let ?cs = "cells_between 1 (R - 1) 1 (C - 1)"
  let ?G = "\<lambda>(i, j) m. set_cell m i j (classify_from P (cell m i j) i j)"
  have R: "length P = R" "0 < R" using assms(1,2) by (auto simp: rect_length)
  have "first_pass P = fold (\<lambda>(i, j) m. classify_cell m i j) ?cs P"
    unfolding first_pass_def cells_between_def R(1)
    by (rule fold_rows_cells [OF assms(1) R(2) rect_classify_cell])
  also have "\<dots> = fold ?G ?cs P"
    using assms by (intro fold_classify_cell) (auto simp: agrees_with_def)
  finally have fp: "first_pass P = fold ?G ?cs P" .
  have in_range: "\<forall>(i, j) \<in> set ?cs. i < R \<and> j < C" by auto
  have rect_fp: "rect R C (fold ?G ?cs P)"
    by (rule rect_fold [OF _ assms(1)]) (auto simp: rect_set_cell)
  show ?thesis
  proof (rule grid_of_eqI [OF rect_fp [folded fp]])
    fix a b assume "a < R" "b < C"
    show "cell (first_pass P) a b = first_tile P a b"
      unfolding fp cell_fold_set_cells [OF assms(1) distinct_cells_between in_range]
      using interior_cells_between [OF assms(1) R(2), of a b]
      by (auto simp: first_tile_def classify_from_def)
  qed
qed

subsection \<open>The platform pass computes the reference overlay\<close>

lemma rect_mark_platform: "rect R C m \<Longrightarrow> rect R C (mark_platform m i j)"
  by (simp add: mark_platform_def rect_set_cell)

lemma fold_mark_platform:
  assumes "rect R C F" "0 < R" "marks_agree R C F m"
    and below: "\<And>i j. interior F i j \<Longrightarrow> cell F i j \<in> set platform_kinds
                       \<Longrightarrow> cell F (i + 1) j \<notin> set platform_kinds"
    and "set cs \<subseteq> set (cells_between 1 (R - 1) 1 (C - 1))"
  shows "fold (\<lambda>(i, j) m. mark_platform m i j) cs m
       = fold (\<lambda>(i, j) m. if cell F i j \<in> set platform_kinds then set_cell m (Suc i) j PLATFORM else m) cs m"
  using assms(3,5)
proof (induction cs arbitrary: m)
  case Nil
  then show ?case by simp
next
  case (Cons c cs)
  obtain i j where c: "c = (i, j)" by (cases c)
  have ij: "Suc i < R" "j < C" "i < R" and int: "interior F i j"
    using Cons.prems(2) c interior_cells_between [OF assms(1,2)] by auto
  have r: "rect R C m" using Cons.prems(1) by (simp add: marks_agree_def)
  have same: "(cell m i j \<in> set platform_kinds) = (cell F i j \<in> set platform_kinds)"
    using Cons.prems(1) ij by (simp add: marks_agree_def)
  let ?m = "if cell F i j \<in> set platform_kinds then set_cell m (Suc i) j PLATFORM else m"
  have step: "mark_platform m i j = ?m" using same by (simp add: mark_platform_def)
  have "marks_agree R C F ?m"
    using Cons.prems(1) below [OF int] ij
    by (auto simp: marks_agree_def rect_set_cell cell_set_cell [OF r] platform_kinds_def)
  then show ?case using Cons.IH Cons.prems(2) c step by simp
qed

theorem platform_pass_spec:
  assumes "rect R C F" "2 \<le> R"
    and below: "\<And>i j. interior F i j \<Longrightarrow> cell F i j \<in> set platform_kinds
                       \<Longrightarrow> cell F (i + 1) j \<notin> set platform_kinds"
  shows "platform_pass F = grid_of R C (platform_from F)"
proof -
  let ?cs = "cells_between 1 (R - 1) 1 (C - 1)"
  let ?Q = "\<lambda>i j. cell F i j \<in> set platform_kinds"
  let ?G = "\<lambda>(i, j) m. if ?Q i j then set_cell m (Suc i) j PLATFORM else m"
  have R: "length F = R" "0 < R" using assms(1,2) by (auto simp: rect_length)
  have "platform_pass F = fold (\<lambda>(i, j) m. mark_platform m i j) ?cs F"
    unfolding platform_pass_def cells_between_def R(1)
    by (rule fold_rows_cells [OF assms(1) R(2) rect_mark_platform])
  also have "\<dots> = fold ?G ?cs F"
    by (rule fold_mark_platform [OF assms(1) R(2) _ below]) (auto simp: marks_agree_def assms(1))
  finally have pp: "platform_pass F = fold ?G ?cs F" .
  have in_range: "\<forall>(i, j) \<in> set ?cs. Suc i < R \<and> j < C" by auto
  have rect_pp: "rect R C (fold ?G ?cs F)"
    by (rule rect_fold [OF _ assms(1)]) (auto simp: rect_set_cell)
  show ?thesis
  proof (rule grid_of_eqI [OF rect_pp [folded pp]])
    fix a b assume "a < R" "b < C"
    have "(\<exists>(i, j) \<in> set ?cs. ?Q i j \<and> a = Suc i \<and> b = j)
          \<longleftrightarrow> 2 \<le> a \<and> interior F (a - 1) b \<and> ?Q (a - 1) b"
      using interior_cells_between [OF assms(1) R(2), of "a - 1" b] by auto
    then show "cell (platform_pass F) a b = platform_from F a b"
      unfolding pp cell_fold_mark_below [OF assms(1) in_range] platform_from_def by simp
  qed
qed

subsection \<open>Padding\<close>

lemma rect_to_tiles: "rect R C maze \<Longrightarrow> rect R C (to_tiles maze)"
  by (simp add: rect_def to_tiles_def list_all_iff)

lemma rect_pad: "rect R C g \<Longrightarrow> rect (R + 2) (length (g ! 0) + 2) (pad v g)"
  by (cases g) (auto simp: rect_def pad_def Let_def list_all_iff)

lemma pad_row0: "pad v g ! 0 = replicate (length (g ! 0) + 2) v"
  by (simp add: pad_def Let_def)

lemma cell_pad:
  assumes "rect R C g" "0 < R" "a < R + 2" "b < C + 2"
  shows "cell (pad v g) a b = (if 1 \<le> a \<and> a \<le> R \<and> 1 \<le> b \<and> b \<le> C then cell g (a - 1) (b - 1) else v)"
proof -
  have len: "length g = R" "length (g ! 0) = C" using assms(1,2) by (auto simp: rect_length rect_row_length)
  consider "a = 0" | "1 \<le> a" "a \<le> R" | "a = R + 1" using assms(3) by linarith
  then show ?thesis
  proof cases
    case 1
    then show ?thesis using assms(4) len by (simp add: pad_def Let_def cell_def del: replicate.simps)
  next
    case 2
    then obtain k where k: "a = Suc k" "k < R" by (cases a) auto
    have row: "pad v g ! a = v # g ! k @ [v]" using k len by (simp add: pad_def Let_def nth_append)
    have "length (g ! k) = C" using assms(1) k(2) by (rule rect_row_length)
    then show ?thesis using row k assms(4) 2
      by (cases b) (auto simp: cell_def nth_append nth_Cons')
  next
    case 3
    then show ?thesis
      using assms(4) len by (simp add: pad_def Let_def cell_def nth_append del: replicate.simps)
  qed
qed

lemma cell_pad_to_tiles:
  assumes "a < length (pad EMPTY (to_tiles maze))" "b < length (pad EMPTY (to_tiles maze) ! a)"
  shows "cell (pad EMPTY (to_tiles maze)) a b \<in> {PATH, EMPTY}"
proof -
  let ?P = "pad EMPTY (to_tiles maze)"
  have "cell ?P a b \<in> set (?P ! a)" "?P ! a \<in> set ?P" using assms by (simp_all add: cell_def)
  then show ?thesis by (auto simp: pad_def Let_def to_tiles_def)
qed

subsection \<open>\<^verbatim>\<open>_generate_map\<close> computes the reference tilemap\<close>

lemma first_tile_below:
  assumes "interior P i j" "cell P i j \<in> {PATH, EMPTY}" "first_tile P i j \<in> set platform_kinds"
  shows "cell P (i + 1) j = EMPTY" and "first_tile P (i + 1) j = EMPTY"
proof -
  have "cell P i j = PATH"
    using assms by (auto simp: first_tile_def platform_kinds_def)
  then have "\<not> open_at P (i + 1) j"
    using assms(1,3) classify_pattern_platform_kinds by (auto simp: first_tile_def)
  then show "cell P (i + 1) j = EMPTY" by (simp add: open_at_def)
  then show "first_tile P (i + 1) j = EMPTY" by (simp add: first_tile_def)
qed

lemma interior_grid_of:
  "0 < R \<Longrightarrow> rect R C P \<Longrightarrow> interior (grid_of R C f) i j = interior P i j"
  by (simp add: interior_def grid_of_def rect_length rect_row_length)

lemma generate_map_eq:
  assumes maze: "rect R C maze"
  shows "generate_map maze = Inr (tilemap_spec maze)"
proof -
  define P where "P = pad EMPTY (to_tiles maze)"
  define W where "W = length (to_tiles maze ! 0) + 2"
  have rP: "rect (R + 2) W P"
    unfolding P_def W_def by (rule rect_pad [OF rect_to_tiles [OF maze]])
  have P0: "length (P ! 0) = W" and lenP: "length P = R + 2"
    using rP by (auto simp: rect_row_length rect_length)
  have bin: "cell P a b \<in> {PATH, EMPTY}" if "a < R + 2" "b < W" for a b
    using that rP unfolding P_def by (intro cell_pad_to_tiles) (auto simp: rect_length rect_row_length)
  let ?F = "grid_of (R + 2) W (first_tile P)"
  have fp: "first_pass P = ?F"
    using bin by (intro first_pass_spec [OF rP]) fastforce+
  have intF: "interior ?F i j = interior P i j" for i j
    using rP by (simp add: interior_grid_of)
  have in_range: "i + 1 < R + 2" "i < R + 2" "j < W" if "interior P i j" for i j
    using that by (auto simp: interior_def lenP P0)
  have below: "cell ?F (i + 1) j \<notin> set platform_kinds"
    if "interior ?F i j" "cell ?F i j \<in> set platform_kinds" for i j
  proof -
    have int: "interior P i j" using that(1) intF by simp
    have ft: "first_tile P i j \<in> set platform_kinds"
      using that(2) in_range [OF int] by (simp add: cell_grid_of)
    have "first_tile P (i + 1) j = EMPTY"
      by (rule first_tile_below(2) [OF int bin [OF in_range(2,3) [OF int]] ft])
    then show ?thesis using in_range [OF int] by (simp add: cell_grid_of platform_kinds_def)
  qed
  have pp: "platform_pass ?F = grid_of (R + 2) W (platform_from ?F)"
    using below by (intro platform_pass_spec) (auto simp: rect_grid_of)
  have "platform_from ?F a b = final_tile P a b" if "a < R + 2" "b < W" for a b
    using that intF by (auto simp: platform_from_def final_tile_def cell_grid_of)
  then have "grid_of (R + 2) W (platform_from ?F) = tilemap_spec maze"
    unfolding tilemap_spec_def P_def [symmetric] Let_def lenP P0
    by (intro grid_of_eqI) (simp_all add: rect_grid_of cell_grid_of)
  moreover have "rect (length maze) (length (maze ! 0)) maze"
    using maze by (cases maze) (auto simp: rect_def)
  ultimately show ?thesis
    unfolding generate_map_def P_def [symmetric] fp pp by simp
qed

lemma make_tilemap_rect:
  assumes "rect R C maze" "0 < R"
  shows "make_tilemap maze = Inr \<lparr>tm_width = R, tm_height = C, tm_tiles = tilemap_spec maze\<rparr>"
proof (cases maze)
  case Nil
  then show ?thesis using assms by (simp add: rect_def)
next
  case (Cons r rs)
  then have "length r = C" "length maze = R"
    using rect_row_length [OF assms(1,2)] rect_length [OF assms(1)] by auto
  then show ?thesis using Cons generate_map_eq [OF assms(1)] by (simp add: make_tilemap_def)
qed

subsection \<open>Consequences for the cells of the generated map\<close>

lemma first_tile_not_platform: "cell P a b \<in> {PATH, EMPTY} \<Longrightarrow> first_tile P a b \<noteq> PLATFORM"
  by (auto simp: first_tile_def classify_pattern_not_platform)

lemma first_tile_empty_iff:
  "cell P a b \<in> {PATH, EMPTY} \<Longrightarrow> first_tile P a b = EMPTY \<longleftrightarrow> cell P a b = EMPTY"
  by (auto simp: first_tile_def classify_pattern_not_empty)

lemma cell_padded_tiles:
  assumes "rect R C maze" "0 < R" "a < R + 2" "b < C + 2"
  shows "cell (pad EMPTY (to_tiles maze)) a b =
           (if 1 \<le> a \<and> a \<le> R \<and> 1 \<le> b \<and> b \<le> C \<and> cell maze (a - 1) (b - 1) = 0 then PATH else EMPTY)"
proof -
  have "a - 1 < R \<Longrightarrow> b - 1 < C \<Longrightarrow> cell (to_tiles maze) (a - 1) (b - 1) =
          (if cell maze (a - 1) (b - 1) = 0 then PATH else EMPTY)"
    using assms(1) by (simp add: to_tiles_def cell_def rect_length rect_row_length)
  then show ?thesis
    using cell_pad [OF rect_to_tiles [OF assms(1)] assms(2-4)] by auto
qed

lemma generate_map_cell:
  assumes "rect R C maze" "0 < R" "generate_map maze = Inr T"
  shows "rect (R + 2) (C + 2) T"
    and "a < R + 2 \<Longrightarrow> b < C + 2 \<Longrightarrow> cell T a b = final_tile (pad EMPTY (to_tiles maze)) a b"
proof -
  have W: "length (pad EMPTY (to_tiles maze) ! 0) = C + 2"
    using assms(2) rect_length [OF assms(1)] rect_row_length [OF assms(1,2)]
    by (simp add: pad_row0 to_tiles_def)
  have lenP: "length (pad EMPTY (to_tiles maze)) = R + 2"
    using rect_length [OF assms(1)] by (simp add: pad_def to_tiles_def Let_def)
  have T: "T = grid_of (R + 2) (C + 2) (final_tile (pad EMPTY (to_tiles maze)))"
    using generate_map_eq [OF assms(1)] assms(3) by (simp add: tilemap_spec_def W lenP)
  show "rect (R + 2) (C + 2) T" by (simp add: T rect_grid_of)
  show "a < R + 2 \<Longrightarrow> b < C + 2 \<Longrightarrow> cell T a b = final_tile (pad EMPTY (to_tiles maze)) a b"
    by (simp add: T cell_grid_of)
qed

lemma padded_binary:
  "rect R C maze \<Longrightarrow> 0 < R \<Longrightarrow> a < R + 2 \<Longrightarrow> b < C + 2
   \<Longrightarrow> cell (pad EMPTY (to_tiles maze)) a b \<in> {PATH, EMPTY}"
  by (simp add: cell_padded_tiles)

lemma interior_padded:
  assumes "rect R C maze" "0 < R"
  shows "interior (pad EMPTY (to_tiles maze)) a b \<longleftrightarrow> 1 \<le> a \<and> a \<le> R \<and> 1 \<le> b \<and> b \<le> C"
  using rect_pad [OF rect_to_tiles [OF assms(1)], of EMPTY] assms
  by (auto simp: interior_def rect_length rect_row_length to_tiles_def)

lemma first_tile_kinds_path:
  "first_tile P a b \<in> set platform_kinds \<Longrightarrow> cell P a b \<in> {PATH, EMPTY}
   \<Longrightarrow> interior P a b \<and> cell P a b = PATH"
  by (auto simp: first_tile_def platform_kinds_def split: if_splits)

lemma final_tile_path:
  assumes "cell P (a - 1) b \<in> {PATH, EMPTY}" "cell P a b = PATH"
  shows "final_tile P a b = first_tile P a b"
proof (rule ccontr)
  assume "final_tile P a b \<noteq> first_tile P a b"
  then have a: "2 \<le> a" "interior P (a - 1) b" "first_tile P (a - 1) b \<in> set platform_kinds"
    by (auto simp: final_tile_def split: if_splits)
  have "cell P (a - 1 + 1) b = EMPTY" by (rule first_tile_below(1) [OF a(2) assms(1) a(3)])
  with a(1) assms(2) show False by simp
qed

subsection \<open>Drawing the tilemap\<close>

text \<open>\<^verbatim>\<open>Tilemap.render\<close> blits one sprite per cell of its map, at the cell's
  pixel position.\<close>

lemma render_tilemap_length:
  "rect R C (tm_tiles tm) \<Longrightarrow> 0 < R \<Longrightarrow> length (render_tilemap tm) = R * C"
  by (simp add: render_tilemap_def length_concat o_def sum_list_triv rect_length rect_row_length)

lemma render_tilemap_blit:
  assumes "rect R C (tm_tiles tm)" "0 < R" "op \<in> set (render_tilemap tm)"
  shows "\<exists>i < R. \<exists>j < C. op = Blit (Tile_sprite (cell (tm_tiles tm) i j)) (int i * 32, int j * 32)"
  using assms rect_length [OF assms(1)] rect_row_length [OF assms(1,2)]
  by (auto simp: render_tilemap_def)

section \<open>Properties of the tile classification engine\<close>

text \<open>
  C1. \<^verbatim>\<open>Tilemap._generate_map\<close>, with its two in-place passes over the padded grid,
  computes exactly the cell-by-cell reference classification \<open>tilemap_spec\<close> for every
  rectangular maze; a ragged maze raises ValueError.
\<close>

theorem generate_map_equiv:
  "generate_map maze =
     (if rect (length maze) (length (maze ! 0)) maze then Inr (tilemap_spec maze) else Inl ValueError)"
proof (cases "rect (length maze) (length (maze ! 0)) maze")
  case True
  then show ?thesis by (simp add: generate_map_eq)
next
  case False
  then show ?thesis by (simp add: generate_map_def)
qed

text \<open>
  C3. A cell of the generated map is a platform exactly when it lies directly below a cell
  of one of the seven platform-carrying kinds, inside the maze's columns: platforms appear
  only strictly below such a tile, never beside one.
\<close>

theorem platform_placement:
  assumes "rect R C maze" "0 < R" "generate_map maze = Inr T" "a < R + 2" "b < C + 2"
  shows "cell T a b = PLATFORM \<longleftrightarrow>
           2 \<le> a \<and> 1 \<le> b \<and> b \<le> C \<and> cell T (a - 1) b \<in> set platform_kinds"
proof -
  let ?P = "pad EMPTY (to_tiles maze)"
  have a1: "a - 1 < R + 2" using assms(4) by arith
  have T: "cell T a b = final_tile ?P a b" "cell T (a - 1) b = final_tile ?P (a - 1) b"
    using generate_map_cell(2) [OF assms(1-3)] assms(4,5) a1 by auto
  have bin: "cell ?P x y \<in> {PATH, EMPTY}" if "x < R + 2" "y < C + 2" for x y
    using padded_binary [OF assms(1,2) that] .
  have int: "interior ?P x y \<longleftrightarrow> 1 \<le> x \<and> x \<le> R \<and> 1 \<le> y \<and> y \<le> C" for x y
    by (rule interior_padded [OF assms(1,2)])
  show ?thesis
  proof
    assume "cell T a b = PLATFORM"
    then have p: "2 \<le> a" "interior ?P (a - 1) b" "first_tile ?P (a - 1) b \<in> set platform_kinds"
      using T(1) first_tile_not_platform [OF bin [OF assms(4,5)]] by (auto simp: final_tile_def split: if_splits)
    have "interior ?P (a - 1) b \<and> cell ?P (a - 1) b = PATH"
      using p(3) bin [OF a1 assms(5)] by (rule first_tile_kinds_path)
    moreover have "a - 1 - 1 < R + 2" using a1 by arith
    ultimately have "final_tile ?P (a - 1) b = first_tile ?P (a - 1) b"
      using bin assms(5) by (intro final_tile_path) auto
    then show "2 \<le> a \<and> 1 \<le> b \<and> b \<le> C \<and> cell T (a - 1) b \<in> set platform_kinds"
      using p T(2) int by auto
  next
    assume q: "2 \<le> a \<and> 1 \<le> b \<and> b \<le> C \<and> cell T (a - 1) b \<in> set platform_kinds"
    then have "final_tile ?P (a - 1) b = first_tile ?P (a - 1) b"
      using T(2) by (auto simp: final_tile_def platform_kinds_def split: if_splits)
    moreover have "interior ?P (a - 1) b" using q assms(4) int by auto
    ultimately show "cell T a b = PLATFORM" using q T by (simp add: final_tile_def)
  qed
qed

theorem platform_placement_witness:
  "cell ([[EMPTY, EMPTY, EMPTY, EMPTY, EMPTY],
      [EMPTY, OUTER_LEFT_WALL, LEFT_TO_RIGHT, TOP_RIGHT_WALL, EMPTY],
      [EMPTY, PLATFORM, PLATFORM, TOP_TO_BOTTOM, EMPTY],
      [EMPTY, OUTER_LEFT_WALL, LEFT_TO_RIGHT, BOTTOM_RIGHT_WALL, EMPTY],
      [EMPTY, PLATFORM, PLATFORM, PLATFORM, EMPTY]]) 2 1 = PLATFORM
   \<and> cell ([[EMPTY, EMPTY, EMPTY, EMPTY, EMPTY],
      [EMPTY, OUTER_LEFT_WALL, LEFT_TO_RIGHT, TOP_RIGHT_WALL, EMPTY],
      [EMPTY, PLATFORM, PLATFORM, TOP_TO_BOTTOM, EMPTY],
      [EMPTY, OUTER_LEFT_WALL, LEFT_TO_RIGHT, BOTTOM_RIGHT_WALL, EMPTY],
      [EMPTY, PLATFORM, PLATFORM, PLATFORM, EMPTY]]) 1 1 \<in> set platform_kinds"
proof -
  have g: "generate_map [[0, 0, 0], [1, 1, 0], [0, 0, 0]] = Inr ([[EMPTY, EMPTY, EMPTY, EMPTY, EMPTY],
      [EMPTY, OUTER_LEFT_WALL, LEFT_TO_RIGHT, TOP_RIGHT_WALL, EMPTY],
      [EMPTY, PLATFORM, PLATFORM, TOP_TO_BOTTOM, EMPTY],
      [EMPTY, OUTER_LEFT_WALL, LEFT_TO_RIGHT, BOTTOM_RIGHT_WALL, EMPTY],
      [EMPTY, PLATFORM, PLATFORM, PLATFORM, EMPTY]])"
    by code_simp
  have r: "rect 3 3 [[0, 0, 0], [1, 1, 0], [0, 0, 0]]" by (simp add: rect_def)
  show ?thesis
    using platform_placement [OF r _ g, of 2 1] by (simp add: cell_def platform_kinds_def)
qed

text \<open>
  C4. Every passage cell of the maze (value 0) is drawn as a kind other than EMPTY and
  PLATFORM, and every wall cell as EMPTY or PLATFORM, at its position shifted by the
  one-cell border.
\<close>

theorem generate_map_cell_kinds:
  assumes "rect R C maze" "generate_map maze = Inr T" "i < R" "j < C"
  shows "(cell maze i j = 0 \<longrightarrow> cell T (i + 1) (j + 1) \<notin> {EMPTY, PLATFORM}) \<and>
         (cell maze i j \<noteq> 0 \<longrightarrow> cell T (i + 1) (j + 1) \<in> {EMPTY, PLATFORM})"
proof -
  let ?P = "pad EMPTY (to_tiles maze)"
  have R: "0 < R" using assms(3) by simp
  have ij: "i + 1 < R + 2" "j + 1 < C + 2" "i < R + 2" using assms(3,4) by simp_all
  have T: "cell T (i + 1) (j + 1) = final_tile ?P (i + 1) (j + 1)"
    using generate_map_cell(2) [OF assms(1) R assms(2) ij(1,2)] .
  have c: "cell ?P (i + 1) (j + 1) = (if cell maze i j = 0 then PATH else EMPTY)"
    using cell_padded_tiles [OF assms(1) R ij(1,2)] assms(3,4) by simp
  have above: "cell ?P (i + 1 - 1) (j + 1) \<in> {PATH, EMPTY}"
    using padded_binary [OF assms(1) R ij(3) ij(2)] by simp
  have int: "interior ?P (i + 1) (j + 1)" using interior_padded [OF assms(1) R] assms(3,4) by simp
  show ?thesis
  proof (cases "cell maze i j = 0")
    case True
    then have "final_tile ?P (i + 1) (j + 1) = first_tile ?P (i + 1) (j + 1)"
      using c above by (intro final_tile_path) simp_all
    then show ?thesis
      using True T c int
      by (simp add: first_tile_def classify_pattern_not_empty classify_pattern_not_platform)
  next
    case False
    then show ?thesis using T c by (simp add: final_tile_def first_tile_def)
  qed
qed

theorem generate_map_cell_kinds_witness:
  "cell ([[0, 0, 0], [1, 1, 0], [0, 0, 0]] :: int grid) 1 0 \<noteq> 0
   \<and> cell ([[EMPTY, EMPTY, EMPTY, EMPTY, EMPTY],
      [EMPTY, OUTER_LEFT_WALL, LEFT_TO_RIGHT, TOP_RIGHT_WALL, EMPTY],
      [EMPTY, PLATFORM, PLATFORM, TOP_TO_BOTTOM, EMPTY],
      [EMPTY, OUTER_LEFT_WALL, LEFT_TO_RIGHT, BOTTOM_RIGHT_WALL, EMPTY],
      [EMPTY, PLATFORM, PLATFORM, PLATFORM, EMPTY]]) 2 1 \<in> {EMPTY, PLATFORM}"
proof -
  have g: "generate_map [[0, 0, 0], [1, 1, 0], [0, 0, 0]] = Inr ([[EMPTY, EMPTY, EMPTY, EMPTY, EMPTY],
      [EMPTY, OUTER_LEFT_WALL, LEFT_TO_RIGHT, TOP_RIGHT_WALL, EMPTY],
      [EMPTY, PLATFORM, PLATFORM, TOP_TO_BOTTOM, EMPTY],
      [EMPTY, OUTER_LEFT_WALL, LEFT_TO_RIGHT, BOTTOM_RIGHT_WALL, EMPTY],
      [EMPTY, PLATFORM, PLATFORM, PLATFORM, EMPTY]])"
    by code_simp
  have r: "rect 3 3 [[0, 0, 0], [1, 1, 0], [0, 0, 0]]" by (simp add: rect_def)
  show ?thesis
    using generate_map_cell_kinds [OF r g, of 1 0] by (simp add: cell_def)
qed

text \<open>
  C5. The generated map keeps numpy's one-cell padding: it has two more rows and two more
  columns than the maze, its top row and its left and right border columns are EMPTY.
  Only the bottom border row can change (to PLATFORM).
\<close>

theorem generate_map_padded:
  assumes "rect R C maze" "0 < R" "generate_map maze = Inr T"
  shows "rect (R + 2) (C + 2) T \<and> (\<forall>b < C + 2. cell T 0 b = EMPTY)
         \<and> (\<forall>a < R + 2. cell T a 0 = EMPTY \<and> cell T a (C + 1) = EMPTY)"
proof -
  let ?P = "pad EMPTY (to_tiles maze)"
  have int: "interior ?P x y \<longleftrightarrow> 1 \<le> x \<and> x \<le> R \<and> 1 \<le> y \<and> y \<le> C" for x y
    by (rule interior_padded [OF assms(1,2)])
  have border: "final_tile ?P x y = EMPTY"
    if "x < R + 2" "y < C + 2" "x = 0 \<or> y = 0 \<or> y = C + 1" for x y
    using that int [of "x - 1" y] int [of x y] cell_padded_tiles [OF assms(1,2) that(1,2)]
    by (auto simp: final_tile_def first_tile_def)
  show ?thesis
    using generate_map_cell [OF assms] border by auto
qed

theorem generate_map_padded_witness:
  "rect 5 5 ([[EMPTY, EMPTY, EMPTY, EMPTY, EMPTY],
      [EMPTY, OUTER_LEFT_WALL, LEFT_TO_RIGHT, TOP_RIGHT_WALL, EMPTY],
      [EMPTY, PLATFORM, PLATFORM, TOP_TO_BOTTOM, EMPTY],
      [EMPTY, OUTER_LEFT_WALL, LEFT_TO_RIGHT, BOTTOM_RIGHT_WALL, EMPTY],
      [EMPTY, PLATFORM, PLATFORM, PLATFORM, EMPTY]])
   \<and> cell ([[EMPTY, EMPTY, EMPTY, EMPTY, EMPTY],
      [EMPTY, OUTER_LEFT_WALL, LEFT_TO_RIGHT, TOP_RIGHT_WALL, EMPTY],
      [EMPTY, PLATFORM, PLATFORM, TOP_TO_BOTTOM, EMPTY],
      [EMPTY, OUTER_LEFT_WALL, LEFT_TO_RIGHT, BOTTOM_RIGHT_WALL, EMPTY],
      [EMPTY, PLATFORM, PLATFORM, PLATFORM, EMPTY]]) 0 3 = EMPTY"
proof -
  have g: "generate_map [[0, 0, 0], [1, 1, 0], [0, 0, 0]] = Inr ([[EMPTY, EMPTY, EMPTY, EMPTY, EMPTY],
      [EMPTY, OUTER_LEFT_WALL, LEFT_TO_RIGHT, TOP_RIGHT_WALL, EMPTY],
      [EMPTY, PLATFORM, PLATFORM, TOP_TO_BOTTOM, EMPTY],
      [EMPTY, OUTER_LEFT_WALL, LEFT_TO_RIGHT, BOTTOM_RIGHT_WALL, EMPTY],
      [EMPTY, PLATFORM, PLATFORM, PLATFORM, EMPTY]])"
    by code_simp
  have r: "rect 3 3 [[0, 0, 0], [1, 1, 0], [0, 0, 0]]" by (simp add: rect_def)
  show ?thesis using generate_map_padded [OF r _ g] by simp
qed

end
