(* ===== verification/EnvState.thy ===== *)
theory EnvState
  imports Tilemap
begin

text \<open>
  The object of \<^verbatim>\<open>src/src/maze_env/envs/MazeEnv.py\<close>: the class \<^verbatim>\<open>MazeEnv\<close> as
  a record of its fields, the constructor \<^verbatim>\<open>__init__\<close> with its oddness assertion,
  the class constants, and the two read-only helpers \<^verbatim>\<open>_get_observation\<close> and
  \<^verbatim>\<open>_get_info\<close>. Python's integers are \<open>int\<close>; the score, a Python float, is an
  exact rational. The methods that change the object are in \<open>Render\<close> and
  \<open>MazeEnv\<close>.
\<close>

subsection \<open>The environment object\<close>

text \<open>
  The render mode is the string the constructor is given (\<^verbatim>\<open>metadata\<close> lists the two
  the class supports). The model keeps the two names the code compares against as
  constructors and any other string as \<open>Other_mode\<close>; \<open>mode_of_string\<close> reads a
  string so, and the constructor stores the mode read from its argument, so that an
  object never holds \<open>Other_mode\<close> of one of the two names.
\<close>

datatype render_mode = Human | Rgb_array | Other_mode string

definition mode_of_string :: "string \<Rightarrow> render_mode" where
  "mode_of_string s = (if s = ''human'' then Human else if s = ''rgb_array'' then Rgb_array else Other_mode s)"

text \<open>The pygame surface: the window of the \<^verbatim>\<open>human\<close> mode or an off-screen buffer.\<close>

datatype surface = Display_surface | Buffer_surface

text \<open>
  The attributes the constructor sets, in its order, and the state of pygame's display
  module as the last field \<open>video\<close>: \<^verbatim>\<open>pygame.init()\<close> in \<^verbatim>\<open>render\<close> turns it on
  and \<^verbatim>\<open>pygame.display.quit()\<close> in \<^verbatim>\<open>close\<close> turns it off. It is global to the
  process and is carried with the environment, its only user.
\<close>

record maze_env =
  render_mode :: "render_mode option"
  maze_size :: "int \<times> int"
  px_width :: int
  px_height :: int
  agent :: "int \<times> int"
  start :: "int \<times> int"
  end_cell :: "int \<times> int"
  state :: "int grid option"
  env_tilemap :: "tilemap option"
  score :: rat
  surface :: "surface option"
  clock :: bool
  video :: bool

text \<open>\<^verbatim>\<open>reward_range\<close> and \<^verbatim>\<open>metadata\<close>'s frame rate are class constants.\<close>

definition reward_range :: "rat \<times> rat" where
  "reward_range = (-2, 1)"

text \<open>The constructor's \<^verbatim>\<open>size\<close> is an int or a pair \<^verbatim>\<open>(width, height)\<close>.\<close>

datatype size_arg = Square int | Dims int int

definition maze_env_init :: "size_arg \<Rightarrow> string option \<Rightarrow> py_error + maze_env" where
  "maze_env_init sz mode =
     (let (w, h) = (case sz of Square n \<Rightarrow> (n, n) | Dims w h \<Rightarrow> (w, h))
      in if w mod 2 = 1 \<and> h mod 2 = 1
         then Inr \<lparr>render_mode = map_option mode_of_string mode, maze_size = (w, h), px_width = w * 32 + 64,
                   px_height = h * 32 + 64, agent = (0, 0), start = (0, 0),
                   end_cell = (h - 1, w - 1), state = None, env_tilemap = None, score = 0,
                   surface = None, clock = False, video = False\<rparr>
         else Inl AssertionError)"

text \<open>\<^verbatim>\<open>observation_space\<close> is \<^verbatim>\<open>Discrete(size[0] * size[1])\<close>.\<close>

definition observation_space_n :: "maze_env \<Rightarrow> int" where
  "observation_space_n env = fst (maze_size env) * snd (maze_size env)"

subsection \<open>Observation and info\<close>

definition get_observation :: "maze_env \<Rightarrow> int" where
  "get_observation env = fst (agent env) * fst (maze_size env) + snd (agent env)"

record step_info =
  info_agent :: "int \<times> int"
  info_maze :: "int grid option"
  info_score :: rat

definition get_info :: "maze_env \<Rightarrow> step_info" where
  "get_info env = \<lparr>info_agent = agent env, info_maze = state env, info_score = score env\<rparr>"

end
