(* ===== verification/Render.thy ===== *)
theory Render
  imports EnvState
begin

text \<open>
  The render adapter of \<^verbatim>\<open>src/src/maze_env/envs/MazeEnv.py\<close>: \<^verbatim>\<open>render\<close>,
  which starts pygame and creates the surface and clock on first use, \<^verbatim>\<open>_draw\<close>, which
  hands the tilemap and the two markers to pygame, and \<^verbatim>\<open>close\<close>, which shuts
  pygame down. The surface and the clock are reduced
  to their existence and a drawing to the list of fill and blit calls it makes
  (\<open>draw_op\<close>, shared with \<open>Tilemap.render_tilemap\<close>); the pixels are not modelled.
\<close>

subsection \<open>Drawing and rendering\<close>

text \<open>
  \<^verbatim>\<open>_draw\<close> fills the surface, draws the tilemap, then the agent (tileset image 12) and
  the goal (image 13), each one tile right and down of its cell for the border. The fill
  raises \<^verbatim>\<open>pygame.error\<close> on a display surface whose display module has been shut
  down; with no tilemap yet (render before the first reset) \<^verbatim>\<open>self.tilemap.render\<close>
  raises.
\<close>

definition draw :: "maze_env \<Rightarrow> py_error + draw_op list" where
  "draw env =
     (if surface env = Some Display_surface \<and> \<not> video env then Inl PygameError
      else case env_tilemap env of
        None \<Rightarrow> Inl AttributeError
      | Some tm \<Rightarrow>
          Inr (Fill (33, 30, 29) # render_tilemap tm @
               [Blit (Tileset_image 12) ((fst (agent env) + 1) * 32, (snd (agent env) + 1) * 32),
                Blit (Tileset_image 13) ((fst (end_cell env) + 1) * 32, (snd (end_cell env) + 1) * 32)]))"

text \<open>The surface \<^verbatim>\<open>render\<close> creates for a mode: a window for \<^verbatim>\<open>human\<close>, a buffer for
  \<^verbatim>\<open>rgb_array\<close>, none for another mode.\<close>

definition mode_surface :: "render_mode \<Rightarrow> surface option" where
  "mode_surface mode =
     (case mode of Human \<Rightarrow> Some Display_surface | Rgb_array \<Rightarrow> Some Buffer_surface
      | Other_mode _ \<Rightarrow> None)"

text \<open>
  \<^verbatim>\<open>render\<close> does nothing without a render mode. Otherwise, on first use, it calls
  \<^verbatim>\<open>pygame.init()\<close>, which starts the display module, and creates the mode's surface,
  which the assertion then requires; it creates the clock, draws, and returns the frame
  in the \<^verbatim>\<open>rgb_array\<close> mode. The frame is the draw list that produced the pixels.
\<close>

definition render :: "maze_env \<Rightarrow> (py_error + draw_op list option) \<times> maze_env" where
  "render env =
     (case render_mode env of
        None \<Rightarrow> (Inr None, env)
      | Some mode \<Rightarrow>
          (let env1 =
             (if surface env = None then env\<lparr>video := True, surface := mode_surface mode\<rparr>
              else env)
           in if surface env1 = None then (Inl AssertionError, env1)
              else
                (let env2 = env1\<lparr>clock := True\<rparr>
                 in case draw env2 of
                      Inl e \<Rightarrow> (Inl e, env2)
                    | Inr frame \<Rightarrow> (Inr (if mode = Rgb_array then Some frame else None), env2))))"

text \<open>
  \<^verbatim>\<open>close\<close> shuts pygame down when a surface exists. It leaves \<^verbatim>\<open>self.surface\<close>
  and \<^verbatim>\<open>self.clock\<close> as they are.
\<close>

definition close :: "maze_env \<Rightarrow> maze_env" where
  "close env = (if surface env \<noteq> None then env\<lparr>video := False\<rparr> else env)"

subsection \<open>What render changes\<close>

text \<open>\<^verbatim>\<open>render\<close> writes only the surface and the clock, and leaves a clock behind in
  the two modes that tick it.\<close>

lemma render_fields:
  "snd (render env) = env\<lparr>surface := surface (snd (render env)), clock := clock (snd (render env)),
                          video := video (snd (render env))\<rparr>"
  by (cases "render_mode env"; cases "surface env")
     (auto simp: render_def Let_def split: render_mode.splits sum.splits)

lemma render_clock:
  "render_mode env \<in> {Some Human, Some Rgb_array} \<or> clock env \<Longrightarrow> clock (snd (render env))"
  by (cases "surface env")
     (auto simp: render_def mode_surface_def Let_def split: render_mode.splits sum.splits option.splits)

lemma render_keeps:
  "maze_size (snd (render env)) = maze_size env \<and> agent (snd (render env)) = agent env
   \<and> end_cell (snd (render env)) = end_cell env \<and> score (snd (render env)) = score env
   \<and> state (snd (render env)) = state env \<and> env_tilemap (snd (render env)) = env_tilemap env
   \<and> render_mode (snd (render env)) = render_mode env
   \<and> px_width (snd (render env)) = px_width env \<and> px_height (snd (render env)) = px_height env"
  by (subst (1 2 3 4 5 6 7 8 9) render_fields) simp

text \<open>A surface \<^verbatim>\<open>render\<close> leaves is the mode's, created with the display module on;
  without a mode it creates none.\<close>

lemma render_surface:
  "surface (snd (render env)) =
     (case render_mode env of None \<Rightarrow> surface env
      | Some m \<Rightarrow> (if surface env = None then mode_surface m else surface env))
   \<and> video (snd (render env)) = (video env \<or> (render_mode env \<noteq> None \<and> surface env = None))"
  by (cases "render_mode env"; cases "surface env")
     (auto simp: render_def Let_def split: sum.splits)

text \<open>A surface is only ever the mode's one and exists only with the display module on;
  \<^verbatim>\<open>render\<close> keeps it so, and in the two drawing modes it leaves a surface.\<close>

definition live_surface :: "maze_env \<Rightarrow> bool" where
  "live_surface env \<longleftrightarrow>
     (surface env \<noteq> None \<longrightarrow> video env \<and> surface env = Option.bind (render_mode env) mode_surface)"

lemma render_live: "live_surface env \<Longrightarrow> live_surface (snd (render env))"
  using render_surface [of env] render_keeps [of env]
  by (cases "render_mode env") (auto simp: live_surface_def)

lemma render_has_surface:
  "render_mode env \<in> {Some Human, Some Rgb_array} \<Longrightarrow> surface (snd (render env)) \<noteq> None"
  by (cases "surface env") (auto simp: render_def mode_surface_def Let_def split: sum.splits)

text \<open>The drawing reads neither the clock nor, off the display, the display module.\<close>

lemma draw_clock: "draw (env\<lparr>clock := c\<rparr>) = draw env"
  by (simp add: draw_def split: option.splits)

lemma draw_video: "surface env \<noteq> Some Display_surface \<Longrightarrow> draw (env\<lparr>video := v\<rparr>) = draw env"
  by (simp add: draw_def split: option.splits)

text \<open>Before a surface exists the display module's state does not matter: \<^verbatim>\<open>render\<close>
  turns it on.\<close>

lemma render_video:
  "surface env = None \<Longrightarrow> render_mode env \<noteq> None \<Longrightarrow> render (env\<lparr>video := v\<rparr>) = render env"
  by (auto simp: render_def draw_def Let_def split: sum.splits)

lemma live_surface_upd [simp]:
  "live_surface (env\<lparr>agent := p\<rparr>) = live_surface env"
  "live_surface (env\<lparr>score := r\<rparr>) = live_surface env"
  "live_surface (env\<lparr>state := m\<rparr>) = live_surface env"
  "live_surface (env\<lparr>env_tilemap := t\<rparr>) = live_surface env"
  "live_surface (env\<lparr>clock := c\<rparr>) = live_surface env"
  by (simp_all add: live_surface_def)

lemma render_pair:
  "render e = (r, e') \<Longrightarrow> agent e' = agent e \<and> state e' = state e
     \<and> render_mode e' = render_mode e \<and> maze_size e' = maze_size e \<and> score e' = score e"
  using render_keeps [of e] by simp

text \<open>With a tilemap, and the display module on whenever a surface exists,
  \<^verbatim>\<open>render\<close> in the two drawing modes draws, succeeds, and leaves a surface and a
  clock.\<close>

lemma render_drawn:
  assumes "env_tilemap env = Some tm" "render_mode env \<in> {Some Human, Some Rgb_array}"
    and "surface env \<noteq> None \<longrightarrow> video env"
  shows "\<exists>ops. draw env = Inr ops
           \<and> fst (render env) = Inr (if render_mode env = Some Rgb_array then Some ops else None)
           \<and> surface (snd (render env)) \<noteq> None \<and> clock (snd (render env))"
  using assms by (cases "surface env") (auto simp: render_def draw_def mode_surface_def Let_def)

end
