(* ===== verification/MazeEnv.thy ===== *)
theory MazeEnv
  imports Render
begin

text \<open>
  The interaction state machine of \<^verbatim>\<open>src/src/maze_env/envs/MazeEnv.py\<close>:
  \<^verbatim>\<open>reset\<close>, \<^verbatim>\<open>step\<close> and \<^verbatim>\<open>_move_agent\<close>, each taking the object and
  returning its result with the updated object; a method that raises returns \<open>Inl\<close>
  of the exception. The maze generator \<^verbatim>\<open>labyrinthine.depth_first\<close> is a parameter
  \<open>gen\<close> of \<open>reset\<close> and its contract a hypothesis (\<open>gen_ok\<close>). The theory then
  defines the reachable objects, their invariant \<open>env_inv\<close>, and proves the
  properties of the state machine.
\<close>

subsection \<open>Reset\<close>

type_synonym generator = "int \<times> int \<Rightarrow> int option \<Rightarrow> int grid"

text \<open>
  \<^verbatim>\<open>reset\<close> drops the surface and the clock, puts the agent at \<open>(0, 0)\<close> and the score
  at 0, asks the generator for a maze and builds its tilemap, then renders when a render
  mode is set. An exception part-way leaves the assignments made before it.
\<close>

definition reset :: "generator \<Rightarrow> int option \<Rightarrow> maze_env \<Rightarrow> (py_error + int \<times> step_info) \<times> maze_env" where
  "reset gen seed env =
     (let maze = gen (maze_size env) seed;
          env1 = env\<lparr>surface := None, clock := False, agent := (0, 0), score := 0, state := Some maze\<rparr>
      in case make_tilemap maze of
           Inl e \<Rightarrow> (Inl e, env1)
         | Inr tm \<Rightarrow>
             (let env2 = env1\<lparr>env_tilemap := Some tm\<rparr>;
                  (r, env3) = (if render_mode env2 \<noteq> None then render env2 else (Inr None, env2))
              in case r of
                   Inl e \<Rightarrow> (Inl e, env3)
                 | Inr _ \<Rightarrow> (Inr (get_observation env3, get_info env3), env3)))"

subsection \<open>Moving the agent and stepping\<close>

text \<open>
  \<^verbatim>\<open>_move_agent\<close>: the candidate cell is the agent's cell moved by one in the action's
  direction and clamped to the declared size; the move is taken when the maze has a
  passage (0) there. Reading the maze before any reset raises TypeError; a maze smaller
  than the declared size raises IndexError.
\<close>

definition move_target :: "int \<times> int \<Rightarrow> int \<times> int \<Rightarrow> int \<Rightarrow> int \<times> int" where
  "move_target sz pos action =
     (let (w, h) = sz; (i, j) = pos
      in if action = 0 then (i, max 0 (j - 1))
         else if action = 1 then (max 0 (i - 1), j)
         else if action = 2 then (i, min (w - 1) (j + 1))
         else if action = 3 then (min (h - 1) (i + 1), j)
         else (i, j))"

definition move_agent :: "maze_env \<Rightarrow> int \<Rightarrow> py_error + bool \<times> maze_env" where
  "move_agent env action =
     (let (i, j) = move_target (maze_size env) (agent env) action
      in case state env of
           None \<Rightarrow> Inl TypeError
         | Some g \<Rightarrow>
             (case py_cell g i j of
                Inl e \<Rightarrow> Inl e
              | Inr v \<Rightarrow> if v = 0 then Inr (True, env\<lparr>agent := (i, j)\<rparr>) else Inr (False, env)))"

text \<open>
  The part of \<^verbatim>\<open>step\<close> that decides the reward and changes the object: nothing once
  the score sits at the floor, nothing for an action outside \<^verbatim>\<open>range(4)\<close> or a blocked
  move, otherwise the move with reward 1 on the goal and \<open>-1 / (w h)\<close> elsewhere.
\<close>

definition step_move :: "maze_env \<Rightarrow> int \<Rightarrow> py_error + rat \<times> bool \<times> maze_env" where
  "step_move env action =
     (if score env = fst reward_range then Inr (0, False, env)
      else if action \<in> {0..3} then
        (case move_agent env action of
           Inl e \<Rightarrow> Inl e
         | Inr (False, env') \<Rightarrow> Inr (0, False, env')
         | Inr (True, env') \<Rightarrow>
             (let terminated = (agent env' = end_cell env');
                  (w, h) = maze_size env'
              in if \<not> terminated \<and> w * h = 0 then Inl ZeroDivisionError
                 else
                   (let reward = (if terminated then 1 else - 1 / of_int (w * h))
                    in Inr (reward, terminated, env'\<lparr>score := score env' + reward\<rparr>))))
      else Inr (0, False, env))"

type_synonym step_result = "int \<times> rat \<times> bool \<times> bool \<times> step_info"

definition step :: "maze_env \<Rightarrow> int \<Rightarrow> py_error + step_result \<times> maze_env" where
  "step env action =
     (if render_mode env \<in> {Some Human, Some Rgb_array} \<and> \<not> clock env then Inl AttributeError
      else
        (case step_move env action of
           Inl e \<Rightarrow> Inl e
         | Inr (reward, terminated, env') \<Rightarrow>
             Inr ((get_observation env', reward, terminated, score env' \<le> fst reward_range,
                   get_info env'), env')))"

subsection \<open>Runs, contracts and invariants\<close>

text \<open>A sequence of \<^verbatim>\<open>step\<close> calls, stopping at the first exception, as a host loop
  drives the environment.\<close>

fun run :: "maze_env \<Rightarrow> int list \<Rightarrow> py_error + step_result list \<times> maze_env" where
  "run env [] = Inr ([], env)"
| "run env (a # as) =
     (case step env a of
        Inl e \<Rightarrow> Inl e
      | Inr (r, env') \<Rightarrow>
          (case run env' as of Inl e \<Rightarrow> Inl e | Inr (rs, env'') \<Rightarrow> Inr (r # rs, env'')))"

definition result_reward :: "step_result \<Rightarrow> rat" where
  "result_reward r = fst (snd r)"

definition result_terminated :: "step_result \<Rightarrow> bool" where
  "result_terminated r = fst (snd (snd r))"

definition result_truncated :: "step_result \<Rightarrow> bool" where
  "result_truncated r = fst (snd (snd (snd r)))"

text \<open>
  The generator's contract, from the specification of the external maze generator: for
  a positive size \<open>(w, h)\<close> it returns \<open>h\<close> rows of \<open>w\<close> cells whose start cell
  \<open>(0, 0)\<close> is a passage.
\<close>

definition gen_ok :: "generator \<Rightarrow> bool" where
  "gen_ok gen \<longleftrightarrow>
     (\<forall>w h seed. 0 < w \<longrightarrow> 0 < h \<longrightarrow>
        rect (nat h) (nat w) (gen (w, h) seed) \<and> cell (gen (w, h) seed) 0 0 = 0)"

text \<open>A score on the lattice of the per-step penalty: an integer multiple of \<open>1 / A\<close>.\<close>

definition on_lattice :: "int \<Rightarrow> rat \<Rightarrow> bool" where
  "on_lattice A s \<longleftrightarrow> of_int \<lfloor>s * of_int A\<rfloor> = s * of_int A"

text \<open>
  The invariant of the object between calls: a positive declared size with the goal in
  its far corner and the surface one tile larger than the maze on every side, the agent inside it, the score on the lattice and never below the
  floor; before the first reset the agent and the score are at their initial values,
  after it the maze has the declared shape, the agent stands on a passage and the
  tilemap is the one built from the maze; a rendering mode that ticks the clock has one
  once a maze exists.
\<close>

definition env_inv :: "maze_env \<Rightarrow> bool" where
  "env_inv env \<longleftrightarrow>
     (let w = fst (maze_size env); h = snd (maze_size env); i = fst (agent env); j = snd (agent env)
      in 0 < w \<and> 0 < h \<and> end_cell env = (h - 1, w - 1)
         \<and> px_width env = w * 32 + 64 \<and> px_height env = h * 32 + 64
         \<and> 0 \<le> i \<and> i < h \<and> 0 \<le> j \<and> j < w
         \<and> fst reward_range \<le> score env \<and> on_lattice (w * h) (score env)
         \<and> live_surface env
         \<and> (case state env of
              None \<Rightarrow> agent env = (0, 0) \<and> score env = 0 \<and> env_tilemap env = None
            | Some g \<Rightarrow> rect (nat h) (nat w) g \<and> cell g (nat i) (nat j) = 0
                \<and> env_tilemap env = (case make_tilemap g of Inl e \<Rightarrow> None | Inr tm \<Rightarrow> Some tm)
                \<and> (render_mode env \<in> {Some Human, Some Rgb_array} \<longrightarrow> clock env \<and> surface env \<noteq> None)))"

text \<open>
  The states a program reaches: a constructed object of positive size, and whatever
  \<^verbatim>\<open>reset\<close> (with a given generator), \<^verbatim>\<open>step\<close> and \<^verbatim>\<open>render\<close> leave, an exception
  included for \<^verbatim>\<open>reset\<close> and \<^verbatim>\<open>render\<close>, which may have assigned fields before it.
\<close>

inductive reachable :: "generator \<Rightarrow> maze_env \<Rightarrow> bool" for gen where
  init: "maze_env_init sz mode = Inr env \<Longrightarrow> 0 < fst (maze_size env) \<Longrightarrow> 0 < snd (maze_size env)
         \<Longrightarrow> reachable gen env"
| reset: "reachable gen env \<Longrightarrow> reachable gen (snd (reset gen seed env))"
| step: "reachable gen env \<Longrightarrow> step env a = Inr (out, env') \<Longrightarrow> reachable gen env'"
| render: "reachable gen env \<Longrightarrow> reachable gen (snd (render env))"

text \<open>The fields that only the constructor writes.\<close>

definition env_config :: "maze_env \<Rightarrow> render_mode option \<times> (int \<times> int) \<times> int \<times> int \<times> (int \<times> int) \<times> (int \<times> int)" where
  "env_config env =
     (render_mode env, maze_size env, px_width env, px_height env, start env, end_cell env)"

text \<open>
  A generator that meets the contract, used to instantiate the theorems below: the
  3x3 maze with a corridor that bends twice, and open grids of every other size.
\<close>

definition demo_gen :: generator where
  "demo_gen sz seed =
     (if sz = (3, 3) then [[0, 0, 0], [1, 1, 0], [0, 0, 0]]
      else replicate (nat (snd sz)) (replicate (nat (fst sz)) 0))"

definition demo_env :: maze_env where
  "demo_env = \<lparr>render_mode = None, maze_size = (3, 3), px_width = 160, px_height = 160,
                agent = (0, 0), start = (0, 0), end_cell = (2, 2), state = None, env_tilemap = None,
                score = 0, surface = None, clock = False, video = False\<rparr>"

subsection \<open>The score lattice\<close>

lemma on_lattice_iff: "on_lattice A s \<longleftrightarrow> s * of_int A \<in> \<int>"
proof
  assume "on_lattice A s"
  then show "s * of_int A \<in> \<int>" unfolding on_lattice_def by (metis Ints_of_int)
next
  assume "s * of_int A \<in> \<int>"
  then show "on_lattice A s" unfolding on_lattice_def by (auto elim: Ints_cases)
qed
lemma on_lattice_zero [simp]: "on_lattice A 0"
  by (simp add: on_lattice_def)

lemma on_lattice_plus_one: "on_lattice A s \<Longrightarrow> on_lattice A (s + 1)"
  by (simp add: on_lattice_iff distrib_right)
lemma on_lattice_minus_unit: "on_lattice A s \<Longrightarrow> A \<noteq> 0 \<Longrightarrow> on_lattice A (s - 1 / of_int A)"
  by (simp add: on_lattice_iff left_diff_distrib)
text \<open>A score on the lattice strictly above the floor is at least one penalty above it.\<close>

lemma lattice_penalty_floor:
  assumes "on_lattice A s" "0 < A" "-2 < s"
  shows "-2 \<le> s - 1 / of_int A"
proof -
  obtain k where k: "s * of_int A = of_int k" using assms(1) by (auto simp: on_lattice_iff elim: Ints_cases)
  have A: "(0::rat) < of_int A" using assms(2) by simp
  have "-2 * of_int A < s * of_int A" using mult_strict_right_mono [OF assms(3) A] by simp
  then have "of_int (-2 * A) < (of_int k :: rat)" using k by simp
  then have "-2 * A + 1 \<le> k" by linarith
  then have "of_int (-2 * A + 1) \<le> s * of_int A" using k by linarith
  then have "-2 * of_int A + 1 \<le> s * of_int A" by simp
  then show ?thesis using A by (simp add: field_simps)
qed

lemma penalties_floor: "(0::int) < A \<Longrightarrow> (- of_int m / of_int A \<le> (-2::rat)) \<longleftrightarrow> 2 * A \<le> m"
proof -
  assume A: "0 < A"
  then have "(- of_int m / of_int A \<le> (-2::rat)) \<longleftrightarrow> - of_int m \<le> (-2::rat) * of_int A"
    by (simp add: le_divide_eq)
  also have "\<dots> \<longleftrightarrow> 2 * A \<le> m" by linarith
  finally show ?thesis .
qed
lemma penalties_floor_eq: "(0::int) < A \<Longrightarrow> (- of_int m / of_int A = (-2::rat)) \<longleftrightarrow> m = 2 * A"
proof -
  assume A: "0 < A"
  then have "(- of_int m / of_int A = (-2::rat)) \<longleftrightarrow> - of_int m = (-2::rat) * of_int A"
    by (simp add: divide_eq_eq)
  also have "\<dots> \<longleftrightarrow> m = 2 * A" by linarith
  finally show ?thesis .
qed
subsection \<open>Moves under the invariant\<close>

lemma move_target_bounds:
  assumes "0 \<le> i" "i < h" "0 \<le> j" "j < w"
  shows "0 \<le> fst (move_target (w, h) (i, j) a) \<and> fst (move_target (w, h) (i, j) a) < h
       \<and> 0 \<le> snd (move_target (w, h) (i, j) a) \<and> snd (move_target (w, h) (i, j) a) < w"
  using assms by (auto simp: move_target_def)

text \<open>
  After a reset the move never raises: the clamped target lies inside the maze, and the
  agent either stays (a wall) or moves to the target, a passage.
\<close>

lemma move_agent_inv:
  assumes "env_inv env" "state env = Some g"
  obtains "move_agent env a = Inr (False, env)"
        "cell g (nat (fst (move_target (maze_size env) (agent env) a)))
                (nat (snd (move_target (maze_size env) (agent env) a))) \<noteq> 0"
    | "move_agent env a = Inr (True, env\<lparr>agent := move_target (maze_size env) (agent env) a\<rparr>)"
        "cell g (nat (fst (move_target (maze_size env) (agent env) a)))
                (nat (snd (move_target (maze_size env) (agent env) a))) = 0"
proof -
  obtain w h i j where sz: "maze_size env = (w, h)" and ag: "agent env = (i, j)"
    by (cases "maze_size env", cases "agent env") auto
  obtain i' j' where t: "move_target (w, h) (i, j) a = (i', j')" by (cases "move_target (w, h) (i, j) a")
  have inv: "0 < w" "0 < h" "0 \<le> i" "i < h" "0 \<le> j" "j < w" "rect (nat h) (nat w) g"
    using assms by (auto simp: env_inv_def sz ag Let_def)
  have "0 \<le> i'" "i' < int (nat h)" "0 \<le> j'" "j' < int (nat w)"
    using move_target_bounds [OF inv(3-6), of a] t inv(1,2) by auto
  then have "py_cell g i' j' = Inr (cell g (nat i') (nat j'))"
    by (rule py_cell_in_range [OF inv(7)])
  then show ?thesis
    using that assms(2) sz ag t by (auto simp: move_agent_def)
qed

lemma env_inv_moved:
  assumes "env_inv env" "state env = Some g"
    and "0 \<le> fst p" "fst p < snd (maze_size env)" "0 \<le> snd p" "snd p < fst (maze_size env)"
    and "cell g (nat (fst p)) (nat (snd p)) = 0"
    and "fst reward_range \<le> s" "on_lattice (fst (maze_size env) * snd (maze_size env)) s"
  shows "env_inv (env\<lparr>agent := p, score := s\<rparr>)"
  using assms by (auto simp: env_inv_def Let_def)

subsection \<open>Every operation keeps the invariant\<close>

lemma step_move_inv:
  assumes inv: "env_inv env" and sm: "step_move env a = Inr (r, t, env')"
  shows "env_inv env'"
proof (cases "score env = fst reward_range \<or> a \<notin> {0..3}")
  case True
  then show ?thesis using sm inv by (auto simp: step_move_def split: if_splits)
next
  case False
  obtain w h where sz: "maze_size env = (w, h)" by (cases "maze_size env")
  have pos: "0 < w" "0 < h" and fl: "fst reward_range \<le> score env"
    and lat: "on_lattice (w * h) (score env)"
    using inv by (auto simp: env_inv_def sz Let_def)
  obtain g where g: "state env = Some g"
    using False sm by (cases "state env") (auto simp: step_move_def move_agent_def split: prod.splits)
  let ?p = "move_target (maze_size env) (agent env) a"
  from move_agent_inv [OF inv g, of a] show ?thesis
  proof cases
    case 1
    then show ?thesis using False sm inv by (auto simp: step_move_def)
  next
    case 2
    have bounds: "0 \<le> fst ?p" "fst ?p < h" "0 \<le> snd ?p" "snd ?p < w"
      using move_target_bounds [of "fst (agent env)" h "snd (agent env)" w a] inv
      by (auto simp: env_inv_def sz Let_def)
    have wh: "w * h \<noteq> 0" using pos by simp
    show ?thesis
    proof (cases "?p = end_cell env")
      case True
      then have "env' = env\<lparr>agent := ?p, score := score env + 1\<rparr>"
        using False sm 2(1) by (auto simp: step_move_def sz)
      moreover have "fst reward_range \<le> score env + 1" using fl by (simp add: reward_range_def)
      ultimately show ?thesis
        using env_inv_moved [OF inv g] bounds 2(2) lat on_lattice_plus_one by (simp add: sz)
    next
      case ne: False
      then have "env' = env\<lparr>agent := ?p, score := score env - 1 / of_int (w * h)\<rparr>"
        using False sm 2(1) wh by (auto simp: step_move_def sz)
      moreover have "fst reward_range \<le> score env - 1 / of_int (w * h)"
        using lattice_penalty_floor [OF lat] pos fl False by (simp add: reward_range_def)
      ultimately show ?thesis
        using env_inv_moved [OF inv g] bounds 2(2) on_lattice_minus_unit [OF lat wh] by (simp add: sz)
    qed
  qed
qed

lemma step_inv: "env_inv env \<Longrightarrow> step env a = Inr (out, env') \<Longrightarrow> env_inv env'"
  by (auto simp: step_def split: if_splits sum.splits prod.splits intro: step_move_inv)

lemma render_inv: "env_inv env \<Longrightarrow> env_inv (snd (render env))"
  using render_clock [of env] render_keeps [of env] render_live [of env] render_has_surface [of env]
  by (auto simp: env_inv_def Let_def split: option.splits)

lemma reset_inv:
  assumes gen: "gen_ok gen" and inv: "env_inv env"
  shows "env_inv (snd (reset gen seed env))"
proof -
  obtain w h where sz: "maze_size env = (w, h)" by (cases "maze_size env")
  have pos: "0 < w" "0 < h" and goal: "end_cell env = (h - 1, w - 1)"
    and px: "px_width env = w * 32 + 64" "px_height env = h * 32 + 64"
    using inv by (auto simp: env_inv_def sz Let_def)
  let ?m = "gen (w, h) seed"
  have m: "rect (nat h) (nat w) ?m" "cell ?m 0 0 = 0" using gen pos by (auto simp: gen_ok_def)
  let ?tm = "\<lparr>tm_width = nat h, tm_height = nat w, tm_tiles = tilemap_spec ?m\<rparr>"
  have tm: "make_tilemap ?m = Inr ?tm" using m(1) pos by (intro make_tilemap_rect) simp_all
  let ?e2 = "env\<lparr>surface := None, clock := False, agent := (0, 0), score := 0, state := Some ?m,
                  env_tilemap := Some ?tm\<rparr>"
  define e3 where "e3 = snd (reset gen seed env)"
  have r: "e3 = (if render_mode env \<noteq> None then snd (render ?e2) else ?e2)"
    unfolding e3_def by (cases "render ?e2") (auto simp: reset_def sz tm Let_def split: sum.splits)
  have f: "maze_size e3 = (w, h)" "agent e3 = (0, 0)" "score e3 = 0" "state e3 = Some ?m"
    "env_tilemap e3 = Some ?tm" "end_cell e3 = (h - 1, w - 1)"
    "px_width e3 = w * 32 + 64" "px_height e3 = h * 32 + 64"
    "render_mode e3 \<in> {Some Human, Some Rgb_array} \<longrightarrow> clock e3 \<and> surface e3 \<noteq> None"
    using render_keeps [of ?e2] render_clock [of ?e2] render_has_surface [of ?e2] r sz goal px
    by (auto split: if_splits)
  have "live_surface e3"
    using render_live [of ?e2] r by (auto simp: live_surface_def split: if_splits)
  show ?thesis
    unfolding e3_def [symmetric] using f pos m tm \<open>live_surface e3\<close>
    by (simp add: env_inv_def reward_range_def)
qed

lemma init_inv:
  "maze_env_init sz mode = Inr env \<Longrightarrow> 0 < fst (maze_size env) \<Longrightarrow> 0 < snd (maze_size env)
   \<Longrightarrow> env_inv env"
  by (auto simp: maze_env_init_def env_inv_def live_surface_def reward_range_def Let_def
      split: size_arg.splits if_splits)

lemma reachable_inv: "reachable gen env \<Longrightarrow> gen_ok gen \<Longrightarrow> env_inv env"
proof (induction rule: reachable.induct)
  case (init sz mode env)
  from init.hyps show ?case by (rule init_inv)
next
  case (reset env seed)
  then show ?case by (simp add: reset_inv)
next
  case (step env a out env')
  then show ?case by (blast intro: step_inv)
next
  case (render env)
  then show ?case by (simp add: render_inv)
qed

subsection \<open>What one step does\<close>

lemma move_agent_Inr:
  "move_agent env a = Inr (b, env') \<Longrightarrow>
     env' = (if b then env\<lparr>agent := move_target (maze_size env) (agent env) a\<rparr> else env)"
  by (auto simp: move_agent_def split: option.splits sum.splits if_splits prod.splits)

text \<open>
  A step that returns keeps the declared size, adds its reward to the score and reports
  truncation from the new score; the reward is 0, 1, or the penalty \<open>-1 / (w h)\<close>, the
  last only from a score above the floor.
\<close>

lemma step_Inr:
  assumes "step env a = Inr (r, env')"
  shows "maze_size env' = maze_size env \<and> score env' = score env + result_reward r
         \<and> result_truncated r = (score env' \<le> fst reward_range)
         \<and> (result_reward r = 0 \<or> result_reward r = 1
            \<or> (result_reward r = - 1 / of_int (fst (maze_size env) * snd (maze_size env))
               \<and> fst (maze_size env) * snd (maze_size env) \<noteq> 0 \<and> score env \<noteq> fst reward_range))"
  using assms
  by (auto simp: step_def step_move_def result_reward_def result_truncated_def Let_def
           dest!: move_agent_Inr split: if_splits sum.splits prod.splits bool.splits)

lemma env_inv_clock:
  "env_inv env \<Longrightarrow> state env \<noteq> None \<Longrightarrow> render_mode env \<in> {Some Human, Some Rgb_array} \<longrightarrow> clock env"
  by (auto simp: env_inv_def Let_def split: option.splits)

lemma env_inv_video: "env_inv env \<Longrightarrow> surface env \<noteq> None \<longrightarrow> video env"
  by (simp add: env_inv_def live_surface_def Let_def)

text \<open>The surface facts of the invariant, and the tilemap of a maze the generator makes
  for the declared size.\<close>

lemma env_inv_surface:
  assumes "env_inv env"
  shows "live_surface env"
    and "state env \<noteq> None \<Longrightarrow> render_mode env \<in> {Some Human, Some Rgb_array} \<Longrightarrow> clock env \<and> surface env \<noteq> None"
  using assms by (auto simp: env_inv_def Let_def split: option.splits)

lemma gen_tilemap:
  assumes "gen_ok gen" "env_inv env"
  shows "\<exists>t. make_tilemap (gen (maze_size env) seed) = Inr t"
proof -
  obtain w h where sz: "maze_size env = (w, h)" by (cases "maze_size env")
  have pos: "0 < w" "0 < h" using assms(2) by (auto simp: env_inv_def Let_def sz)
  then have "rect (nat h) (nat w) (gen (w, h) seed)" using assms(1) by (auto simp: gen_ok_def)
  then show ?thesis using pos sz by (auto dest: make_tilemap_rect)
qed

text \<open>Once a maze exists, the tilemap is the reference map of the maze, two cells larger
  than the declared size each way.\<close>

lemma env_inv_tilemap:
  assumes "env_inv env" "state env = Some g"
  shows "env_tilemap env = Some \<lparr>tm_width = nat (snd (maze_size env)), tm_height = nat (fst (maze_size env)),
                                tm_tiles = tilemap_spec g\<rparr>
       \<and> rect (nat (snd (maze_size env)) + 2) (nat (fst (maze_size env)) + 2) (tilemap_spec g)"
proof -
  obtain w h where sz: "maze_size env = (w, h)" by (cases "maze_size env")
  have g: "rect (nat h) (nat w) g" "0 < nat h" and tm: "env_tilemap env = (case make_tilemap g of Inl e \<Rightarrow> None | Inr tm \<Rightarrow> Some tm)"
    using assms by (auto simp: env_inv_def Let_def sz)
  show ?thesis
    using make_tilemap_rect [OF g] tm generate_map_cell(1) [OF g generate_map_eq [OF g(1)]] by (simp add: sz)
qed

text \<open>What reset and step leave in place.\<close>

lemma reset_start:
  "agent (snd (reset gen seed env)) = (0, 0) \<and> state (snd (reset gen seed env)) = Some (gen (maze_size env) seed)
   \<and> render_mode (snd (reset gen seed env)) = render_mode env \<and> maze_size (snd (reset gen seed env)) = maze_size env
   \<and> score (snd (reset gen seed env)) = 0"
  by (auto simp: reset_def Let_def split: sum.splits prod.splits dest!: render_pair)

lemma reset_Inr:
  assumes gen: "gen_ok gen" and inv: "env_inv env"
    and mode: "render_mode env \<in> {None, Some Human, Some Rgb_array}"
  shows "\<exists>obs. fst (reset gen seed env) = Inr obs"
proof -
  obtain w h where sz: "maze_size env = (w, h)" by (cases "maze_size env")
  have pos: "0 < w" "0 < h" using inv by (auto simp: env_inv_def sz Let_def)
  let ?m = "gen (w, h) seed"
  let ?tm = "\<lparr>tm_width = nat h, tm_height = nat w, tm_tiles = tilemap_spec ?m\<rparr>"
  have "rect (nat h) (nat w) ?m" using gen pos by (auto simp: gen_ok_def)
  then have tm: "make_tilemap ?m = Inr ?tm" using pos by (intro make_tilemap_rect) simp_all
  let ?e2 = "env\<lparr>surface := None, clock := False, agent := (0, 0), score := 0, state := Some ?m,
                  env_tilemap := Some ?tm\<rparr>"
  show ?thesis
  proof (cases "render_mode env = None")
    case True
    then show ?thesis by (simp add: reset_def Let_def sz tm)
  next
    case False
    then have "render_mode ?e2 \<in> {Some Human, Some Rgb_array}" using mode by auto
    from render_drawn [OF _ this, of ?tm] obtain r where "fst (render ?e2) = Inr r" by auto
    then show ?thesis using False by (cases "render ?e2") (auto simp: reset_def Let_def sz tm)
  qed
qed

text \<open>A reset that renders starts the display module afresh.\<close>

lemma reset_video:
  assumes m: "render_mode env \<noteq> None" and tm: "make_tilemap (gen (maze_size env) seed) = Inr t"
  shows "reset gen seed (env\<lparr>video := v\<rparr>) = reset gen seed env"
proof -
  let ?e = "\<lambda>e tm. e\<lparr>surface := None, clock := False, agent := (0, 0), score := 0,
       state := Some (gen (maze_size env) seed), env_tilemap := Some tm\<rparr>"
  have r: "render (?e (env\<lparr>video := v\<rparr>) tm) = render (?e env tm)" for tm
  proof -
    have eq: "?e (env\<lparr>video := v\<rparr>) tm = (?e env tm)\<lparr>video := v\<rparr>" by (cases env) simp
    show ?thesis unfolding eq by (rule render_video) (use m in simp_all)
  qed
  show ?thesis using m by (simp add: reset_def Let_def r tm)
qed

lemma step_keeps_state: "step env a = Inr (out, env') \<Longrightarrow> state env' = state env"
  by (auto simp: step_def step_move_def Let_def dest!: move_agent_Inr split: if_splits sum.splits prod.splits bool.splits)

subsection \<open>Runs of steps\<close>

lemma run_Cons_Inr:
  assumes "run env (a # as) = Inr (rs, env')"
  obtains r e1 rs' where "step env a = Inr (r, e1)" "run e1 as = Inr (rs', env')" "rs = r # rs'"
  using assms by (cases "step env a"; cases "run (snd (projr (step env a))) as") (auto split: prod.splits)

subsection \<open>The sample generator and environment\<close>

lemma demo_gen_ok: "gen_ok demo_gen"
  by (auto simp: gen_ok_def demo_gen_def rect_def cell_def list_all_iff)

lemma demo_env_init: "maze_env_init (Square 3) None = Inr demo_env"
  by (simp add: maze_env_init_def demo_env_def)

lemma demo_reachable: "reachable demo_gen demo_env"
  by (rule reachable.init [OF demo_env_init]) (simp_all add: demo_env_def)

lemma demo_reset_reachable: "reachable demo_gen (snd (reset demo_gen None demo_env))"
  by (rule reachable.reset [OF demo_reachable])

lemma demo_human_reachable:
  "reachable demo_gen (snd (reset demo_gen None (demo_env\<lparr>render_mode := Some Human\<rparr>)))"
  by (intro reachable.reset reachable.init [where sz = "Square 3" and mode = "Some ''human''"])
     (simp_all add: maze_env_init_def mode_of_string_def demo_env_def)

lemma demo_reset_state:
  "state (snd (reset demo_gen None demo_env)) = Some [[0, 0, 0], [1, 1, 0], [0, 0, 0]]"
  by code_simp

section \<open>Properties of the interaction state machine\<close>

text \<open>
  C6. In every state reached after a reset (with a generator meeting its contract) the
  agent is inside the declared size and stands on a passage of the maze: moves clamp at
  the border and never enter a wall.
\<close>

theorem reachable_agent_on_passage:
  assumes "gen_ok gen" "reachable gen env" "state env = Some g"
  shows "0 \<le> fst (agent env) \<and> fst (agent env) < snd (maze_size env)
       \<and> 0 \<le> snd (agent env) \<and> snd (agent env) < fst (maze_size env)
       \<and> cell g (nat (fst (agent env))) (nat (snd (agent env))) = 0"
  using reachable_inv [OF assms(2,1)] assms(3) by (auto simp: env_inv_def Let_def)

theorem reachable_agent_on_passage_witness:
  "0 \<le> fst (agent (snd (reset demo_gen None demo_env))) \<and> cell [[0, 0, 0], [1, 1, 0], [0, 0, (0::int)]] 0 0 = 0"
  using reachable_agent_on_passage [OF demo_gen_ok demo_reset_reachable demo_reset_state]
  by (simp add: cell_def)

text \<open>
  C7. After a reset, \<^verbatim>\<open>step\<close> never raises, whatever the action: out-of-range actions
  are ignored, moves past the border are clamped, and the clock exists when the render
  mode ticks it.
\<close>

theorem step_never_raises:
  assumes "gen_ok gen" "reachable gen env" "state env \<noteq> None"
  shows "\<exists>out env'. step env a = Inr (out, env')"
proof -
  have inv: "env_inv env" by (rule reachable_inv [OF assms(2,1)])
  obtain g where g: "state env = Some g" using assms(3) by auto
  have tick: "\<not> (render_mode env \<in> {Some Human, Some Rgb_array} \<and> \<not> clock env)"
    using env_inv_clock [OF inv assms(3)] by blast
  have wh: "fst (maze_size env) * snd (maze_size env) \<noteq> 0" using inv by (auto simp: env_inv_def Let_def)
  obtain w h where sz: "maze_size env = (w, h)" by (cases "maze_size env")
  have "\<exists>x. step_move env a = Inr x"
  proof (rule move_agent_inv [OF inv g, of a])
    assume "move_agent env a = Inr (False, env)"
    then show ?thesis by (auto simp: step_move_def)
  next
    assume "move_agent env a = Inr (True, env\<lparr>agent := move_target (maze_size env) (agent env) a\<rparr>)"
    then show ?thesis using wh by (auto simp: step_move_def sz Let_def)
  qed
  then show ?thesis using tick by (auto simp: step_def)
qed

theorem step_never_raises_witness: "\<exists>out env'. step (snd (reset demo_gen None demo_env)) 1 = Inr (out, env')"
  using step_never_raises [OF demo_gen_ok demo_reset_reachable] demo_reset_state by simp

text \<open>
  C8. A move accepted onto the goal cell pays 1, reports termination, and reports
  truncation from the updated score, independently of termination.
\<close>

theorem step_onto_goal:
  assumes "score env \<noteq> fst reward_range" "a \<in> {0..3}"
    and "render_mode env \<in> {Some Human, Some Rgb_array} \<longrightarrow> clock env"
    and "move_agent env a = Inr (True, env')" "agent env' = end_cell env'"
  shows "step env a =
           Inr ((get_observation env', 1, True, score env + 1 \<le> fst reward_range,
                 get_info (env'\<lparr>score := score env + 1\<rparr>)), env'\<lparr>score := score env + 1\<rparr>)"
proof -
  have "score env' = score env" using move_agent_Inr [OF assms(4)] by simp
  then show ?thesis using assms by (auto simp: step_def step_move_def get_observation_def)
qed

theorem step_onto_goal_witness:
  "\<exists>r. step ((snd (reset demo_gen None demo_env))\<lparr>agent := (1, 2)\<rparr>) 3 = Inr r \<and> result_reward (fst r) = 1"
proof -
  let ?e = "(snd (reset demo_gen None demo_env))\<lparr>agent := (1, 2)\<rparr>"
  have mv: "move_agent ?e 3 = Inr (True, ?e\<lparr>agent := (2, 2)\<rparr>)" by code_simp
  have "score ?e \<noteq> fst reward_range" "render_mode ?e = None" "end_cell ?e = (2, 2)" by code_simp+
  then show ?thesis using step_onto_goal [OF _ _ _ mv] by (simp add: result_reward_def)
qed

text \<open>
  C9. Standing on the goal in the far corner and pushing into the border (right or
  down) is an accepted move onto the goal: the agent stays, the step pays 1 again and
  reports termination. The environment has no terminal state that stops this.
\<close>

theorem goal_push_pays_again:
  assumes "env_inv env" "state env \<noteq> None" "agent env = end_cell env"
    and "score env \<noteq> fst reward_range" "a \<in> {2, 3}"
  shows "step env a =
           Inr ((get_observation env, 1, True, score env + 1 \<le> fst reward_range,
                 get_info (env\<lparr>score := score env + 1\<rparr>)), env\<lparr>score := score env + 1\<rparr>)"
proof -
  obtain g where g: "state env = Some g" using assms(2) by auto
  obtain w h where sz: "maze_size env = (w, h)" by (cases "maze_size env")
  have inv: "0 < w" "0 < h" "end_cell env = (h - 1, w - 1)"
    using assms(1) by (auto simp: env_inv_def sz Let_def)
  have tgt: "move_target (maze_size env) (agent env) a = agent env"
    using assms(3,5) inv by (auto simp: move_target_def sz)
  have cell0: "cell g (nat (fst (agent env))) (nat (snd (agent env))) = 0"
    using assms(1) g by (auto simp: env_inv_def Let_def)
  have mv: "move_agent env a = Inr (True, env)"
  proof (rule move_agent_inv [OF assms(1) g, of a])
    assume "cell g (nat (fst (move_target (maze_size env) (agent env) a)))
                   (nat (snd (move_target (maze_size env) (agent env) a))) \<noteq> 0"
    then show ?thesis using tgt cell0 by simp
  next
    assume "move_agent env a = Inr (True, env\<lparr>agent := move_target (maze_size env) (agent env) a\<rparr>)"
    then show ?thesis using tgt by simp
  qed
  have tick: "render_mode env \<in> {Some Human, Some Rgb_array} \<longrightarrow> clock env"
    using env_inv_clock [OF assms(1,2)] .
  show ?thesis using assms(3-5) mv tick by (auto simp: step_def step_move_def get_observation_def)
qed

theorem goal_push_pays_again_witness:
  "step ((snd (reset demo_gen None demo_env))\<lparr>agent := (2, 2)\<rparr>) 2 =
     Inr ((get_observation ((snd (reset demo_gen None demo_env))\<lparr>agent := (2, 2)\<rparr>), 1, True,
           score (snd (reset demo_gen None demo_env)) + 1 \<le> fst reward_range,
           get_info ((snd (reset demo_gen None demo_env))\<lparr>agent := (2, 2), score := score (snd (reset demo_gen None demo_env)) + 1\<rparr>)),
          (snd (reset demo_gen None demo_env))\<lparr>agent := (2, 2), score := score (snd (reset demo_gen None demo_env)) + 1\<rparr>)"
proof -
  let ?e = "(snd (reset demo_gen None demo_env))\<lparr>agent := (2, 2)\<rparr>"
  have h: "env_inv ?e" "state ?e \<noteq> None" "agent ?e = end_cell ?e" "score ?e \<noteq> fst reward_range"
    by code_simp+
  show ?thesis using goal_push_pays_again [OF h, of 2] by simp
qed



text \<open>
  C28. \<^verbatim>\<open>step\<close> writes only the agent and the score: the maze, the tilemap, the
  constructor's fields and the render state stay as they were, so the maze is fixed for
  the episode as the specification requires. The observation and info it returns are
  those of the object it leaves, and truncation is read from the new score.
\<close>

theorem step_frame:
  assumes "step env a = Inr (r, env')"
  shows "env' = env\<lparr>agent := agent env', score := score env'\<rparr>
         \<and> r = (get_observation env', result_reward r, result_terminated r,
                score env' \<le> fst reward_range, get_info env')"
  using assms
  by (auto simp: step_def step_move_def result_reward_def result_terminated_def Let_def
           dest!: move_agent_Inr split: if_splits sum.splits prod.splits bool.splits)

theorem step_frame_witness:
  "\<exists>r env'. step (snd (reset demo_gen None demo_env)) 2 = Inr (r, env')
     \<and> env' = (snd (reset demo_gen None demo_env))\<lparr>agent := agent env', score := score env'\<rparr>"
proof -
  let ?s = "step (snd (reset demo_gen None demo_env)) 2"
  have st0: "?s = Inr (projr ?s)" by code_simp
  obtain r e where p: "projr ?s = (r, e)" by (cases "projr ?s")
  have "?s = Inr (r, e)" using st0 p by simp
  then show ?thesis using step_frame [of "snd (reset demo_gen None demo_env)" 2 r e] by blast
qed

text \<open>
  C11. The observation \<^verbatim>\<open>agent[0] * size[0] + agent[1]\<close> of a reachable state decodes
  back to the agent's position with \<open>div\<close> and \<open>mod\<close> by \<^verbatim>\<open>size[0]\<close>, and lies in
  the observation space \<open>[0, size[0] * size[1])\<close>: the stride is right for every
  rectangular size, since the column never exceeds \<^verbatim>\<open>size[0] - 1\<close>.
\<close>

theorem observation_roundtrip:
  assumes "gen_ok gen" "reachable gen env"
  shows "get_observation env div fst (maze_size env) = fst (agent env)
       \<and> get_observation env mod fst (maze_size env) = snd (agent env)
       \<and> 0 \<le> get_observation env \<and> get_observation env < observation_space_n env"
proof -
  have "env_inv env" by (rule reachable_inv [OF assms(2,1)])
  then have "0 \<le> snd (agent env)" "snd (agent env) < fst (maze_size env)"
    "0 \<le> fst (agent env)" "fst (agent env) < snd (maze_size env)"
    by (auto simp: env_inv_def Let_def)
  then show ?thesis
    unfolding get_observation_def observation_space_n_def by (rule row_major_roundtrip)
qed

theorem observation_roundtrip_witness:
  "get_observation (snd (reset demo_gen None demo_env)) div 3 = 0 \<and> get_observation (snd (reset demo_gen None demo_env)) < 9"
proof -
  have "maze_size (snd (reset demo_gen None demo_env)) = (3, 3)" "agent (snd (reset demo_gen None demo_env)) = (0, 0)" by code_simp+
  then show ?thesis
    using observation_roundtrip [OF demo_gen_ok demo_reset_reachable] by (simp add: observation_space_n_def)
qed

text \<open>
  C12. \<^verbatim>\<open>reset\<close> forgets the previous episode: with a generator meeting its contract,
  two objects built with the same constructor arguments give the same result and the
  same new object for the same seed, whatever their agent, score, maze, tilemap,
  surface and clock were. The display module's state is reset's too when it renders;
  without a render mode reset leaves it alone.
\<close>

theorem reset_forgets_episode:
  assumes "gen_ok gen" "0 < fst (maze_size env1)" "0 < snd (maze_size env1)"
    and "env_config env1 = env_config env2"
    and "render_mode env1 \<noteq> None \<or> video env1 = video env2"
  shows "reset gen seed env1 = reset gen seed env2"
proof -
  obtain w h where sz: "maze_size env1 = (w, h)" by (cases "maze_size env1")
  have sz2: "maze_size env2 = (w, h)" using assms(4) sz by (simp add: env_config_def)
  let ?m = "gen (w, h) seed"
  have "rect (nat h) (nat w) ?m" using assms(1-3) sz by (auto simp: gen_ok_def)
  then have tm: "make_tilemap ?m = Inr \<lparr>tm_width = nat h, tm_height = nat w, tm_tiles = tilemap_spec ?m\<rparr>"
    using assms(3) sz by (intro make_tilemap_rect) simp_all
  have "reset gen seed env1 = reset gen seed (env1\<lparr>video := video env2\<rparr>)"
  proof (cases "render_mode env1 = None")
    case True
    then show ?thesis using assms(5) by (cases env1) simp
  next
    case False
    then show ?thesis using reset_video [OF False, of gen seed] tm sz by simp
  qed
  also have "\<dots> = reset gen seed env2"
    using assms(4) sz sz2 tm by (cases env1; cases env2) (simp add: env_config_def reset_def Let_def)
  finally show ?thesis .
qed

theorem reset_forgets_episode_witness:
  "reset demo_gen None demo_env = reset demo_gen None (demo_env\<lparr>agent := (1, 2), score := -1, clock := True\<rparr>)"
  by (rule reset_forgets_episode [OF demo_gen_ok]) (simp_all add: demo_env_def env_config_def)

text \<open>
  C13. Steps that earn nothing (walls, ignored actions) never change the score, so a run
  of them never reports a truncation that the starting score did not already have.
\<close>

theorem zero_reward_run:
  assumes "run env as = Inr (rs, env')" "\<forall>r \<in> set rs. result_reward r = 0"
  shows "score env' = score env \<and> (\<forall>r \<in> set rs. result_truncated r = (score env \<le> fst reward_range))"
  using assms
proof (induction as arbitrary: env rs)
  case Nil
  then show ?case by simp
next
  case (Cons a as)
  obtain r e1 rs' where st: "step env a = Inr (r, e1)" and rn: "run e1 as = Inr (rs', env')"
    and rs: "rs = r # rs'"
    using Cons.prems(1) by (rule run_Cons_Inr)
  have "score e1 = score env" "result_truncated r = (score env \<le> fst reward_range)"
    using step_Inr [OF st] Cons.prems(2) rs by auto
  then show ?case using Cons.IH [OF rn] Cons.prems(2) rs by auto
qed

theorem zero_reward_run_witness:
  "score (snd (projr (run (snd (reset demo_gen None demo_env)) [3, 7]))) = score (snd (reset demo_gen None demo_env))"
proof -
  let ?r = "run (snd (reset demo_gen None demo_env)) [3, 7]"
  have r: "?r = Inr (fst (projr ?r), snd (projr ?r))" by code_simp
  have z: "\<forall>x \<in> set (fst (projr ?r)). result_reward x = 0" by code_simp
  show ?thesis using zero_reward_run [OF r z] by simp
qed

text \<open>
  C14. The constructor accepts exactly the odd sizes: an int \<open>n\<close> when \<open>n\<close> is odd, a
  pair when both components are odd; any other size fails the assertion.
\<close>

theorem init_requires_odd:
  "((\<exists>e. maze_env_init (Dims w h) mode = Inr e) \<longleftrightarrow> odd w \<and> odd h)
   \<and> ((\<exists>e. maze_env_init (Square n) mode = Inr e) \<longleftrightarrow> odd n)
   \<and> (\<not> (odd w \<and> odd h) \<longrightarrow> maze_env_init (Dims w h) mode = Inl AssertionError)"
  by (simp add: maze_env_init_def odd_iff_mod_2_eq_one)

theorem init_requires_odd_witness:
  "maze_env_init (Dims 4 3) None = Inl AssertionError \<and> (\<exists>e. maze_env_init (Dims 5 3) None = Inr e)"
  using init_requires_odd [of 4 3 None] init_requires_odd [of 5 3 None] by simp

text \<open>
  C15. Before the first reset there is no maze and no clock. In the \<^verbatim>\<open>human\<close>
  and \<^verbatim>\<open>rgb_array\<close> modes every step raises AttributeError at
  \<^verbatim>\<open>self.clock.tick\<close>; without a drawing mode a step with a movement action raises
  TypeError (indexing \<^verbatim>\<open>None\<close>), and any other action is a no-op step.
\<close>

theorem step_before_reset:
  assumes "maze_env_init sz mode = Inr env"
  shows "step env a =
           (if mode \<in> {Some ''human'', Some ''rgb_array''} then Inl AttributeError
            else if a \<in> {0..3} then Inl TypeError
            else Inr ((get_observation env, 0, False, False, get_info env), env))"
  using assms
  by (auto simp: maze_env_init_def mode_of_string_def step_def step_move_def move_agent_def
           reward_range_def Let_def split: size_arg.splits if_splits prod.splits)

theorem step_before_reset_witness:
  "step demo_env 2 = Inl TypeError \<and> step demo_env 4 = Inr ((0, 0, False, False, get_info demo_env), demo_env)
   \<and> step (demo_env\<lparr>render_mode := Some Human\<rparr>) 4 = Inl AttributeError"
proof -
  have h: "maze_env_init (Square 3) (Some ''human'') = Inr (demo_env\<lparr>render_mode := Some Human\<rparr>)"
    by (simp add: maze_env_init_def mode_of_string_def demo_env_def)
  show ?thesis
    using step_before_reset [OF demo_env_init, of 2] step_before_reset [OF demo_env_init, of 4]
      step_before_reset [OF h, of 4]
    by (simp add: demo_env_def get_observation_def)
qed

text \<open>
  C16. With a render mode other than \<^verbatim>\<open>human\<close> and \<^verbatim>\<open>rgb_array\<close> (the
  constructor does not check it), \<^verbatim>\<open>reset\<close> builds the new maze and tilemap and then
  fails the surface assertion in \<^verbatim>\<open>render\<close>: the new episode is half set up.
\<close>

theorem reset_unknown_mode:
  assumes "gen_ok gen" "0 < fst (maze_size env)" "0 < snd (maze_size env)"
    and "render_mode env = Some (Other_mode s)"
  shows "fst (reset gen seed env) = Inl AssertionError
       \<and> state (snd (reset gen seed env)) = Some (gen (maze_size env) seed)
       \<and> env_tilemap (snd (reset gen seed env)) \<noteq> None \<and> surface (snd (reset gen seed env)) = None"
proof -
  obtain w h where sz: "maze_size env = (w, h)" by (cases "maze_size env")
  let ?m = "gen (w, h) seed"
  have "rect (nat h) (nat w) ?m" using assms(1-3) sz by (auto simp: gen_ok_def)
  then have tm: "make_tilemap ?m = Inr \<lparr>tm_width = nat h, tm_height = nat w, tm_tiles = tilemap_spec ?m\<rparr>"
    using assms(3) sz by (intro make_tilemap_rect) simp_all
  show ?thesis using assms(4) by (simp add: reset_def render_def mode_surface_def Let_def sz tm)
qed

theorem reset_unknown_mode_witness:
  "fst (reset demo_gen None (demo_env\<lparr>render_mode := Some (Other_mode ''ansi'')\<rparr>)) = Inl AssertionError"
  using reset_unknown_mode [OF demo_gen_ok, of "demo_env\<lparr>render_mode := Some (Other_mode ''ansi'')\<rparr>" "''ansi''" None]
  by (simp add: demo_env_def)

end
