(* ===== verification/Walk.thy ===== *)
theory Walk
  imports MazeEnv
begin

text \<open>
  An abstract specification of an episode, written from the specification's account of
  the state machine (section 4.2) rather than from the code. A walk is the maze, the
  agent's cell and the score. A move adds the action's direction to the cell and clamps
  each coordinate to the maze's own bounds; it is accepted on a passage; the goal is the
  maze's far corner; the penalty is scaled by the maze's area; a score at the floor
  freezes the walk. \<open>walk_of\<close> maps an object to its walk and \<open>lift_walk\<close> writes a
  walk back into an object. The lemma \<open>step_walk_Inr\<close> shows that, on an object that
  keeps the invariant, \<^verbatim>\<open>step\<close> is this walk's step, with every other field of the
  object left alone; the proofs about rewards and episodes (theories \<open>Play\<close> and
  \<open>Connectivity\<close>) reason on the walk through it. Both the walk and the model score
  with exact rationals, so the floor test \<open>score = -2\<close> is the idealised one; no
  theorem stated from here on depends on that test firing.
\<close>

subsection \<open>The abstract walk\<close>

record walk =
  w_maze :: "int grid"
  w_pos :: "int \<times> int"
  w_score :: rat

definition delta :: "int \<Rightarrow> int \<times> int" where
  "delta a = (if a = 0 then (0, -1) else if a = 1 then (-1, 0) else if a = 2 then (0, 1) else (1, 0))"

definition clamp :: "int \<Rightarrow> int \<Rightarrow> int" where
  "clamp n x = max 0 (min (n - 1) x)"

definition walk_dims :: "int grid \<Rightarrow> int \<times> int" where
  "walk_dims g = (int (length g), int (length (g ! 0)))"

definition walk_target :: "int \<times> int \<Rightarrow> int \<times> int \<Rightarrow> int \<Rightarrow> int \<times> int" where
  "walk_target dims p a =
     (clamp (fst dims) (fst p + fst (delta a)), clamp (snd dims) (snd p + snd (delta a)))"

definition walk_open :: "int grid \<Rightarrow> int \<times> int \<Rightarrow> bool" where
  "walk_open g p \<longleftrightarrow> cell g (nat (fst p)) (nat (snd p)) = 0"

definition walk_goal :: "int grid \<Rightarrow> int \<times> int" where
  "walk_goal g = (fst (walk_dims g) - 1, snd (walk_dims g) - 1)"

definition walk_step :: "walk \<Rightarrow> int \<Rightarrow> rat \<times> bool \<times> walk" where
  "walk_step s a =
     (let g = w_maze s; t = walk_target (walk_dims g) (w_pos s) a
      in if w_score s = -2 \<or> a \<notin> {0..3} \<or> \<not> walk_open g t then (0, False, s)
         else
           (let goal = (t = walk_goal g);
                r = (if goal then 1 else - 1 / of_int (fst (walk_dims g) * snd (walk_dims g)))
            in (r, goal, s\<lparr>w_pos := t, w_score := w_score s + r\<rparr>)))"

subsection \<open>The abstraction\<close>

definition walk_of :: "maze_env \<Rightarrow> walk" where
  "walk_of env =
     \<lparr>w_maze = (case state env of Some g \<Rightarrow> g | None \<Rightarrow> []), w_pos = agent env, w_score = score env\<rparr>"

definition lift_walk :: "maze_env \<Rightarrow> walk \<Rightarrow> maze_env" where
  "lift_walk env s = env\<lparr>agent := w_pos s, score := w_score s\<rparr>"

subsection \<open>Step refines the walk\<close>

lemma walk_target_move:
  "0 \<le> i \<Longrightarrow> i < h \<Longrightarrow> 0 \<le> j \<Longrightarrow> j < w \<Longrightarrow> a \<in> {0..3}
   \<Longrightarrow> walk_target (h, w) (i, j) a = move_target (w, h) (i, j) a"
  by (auto simp: walk_target_def move_target_def delta_def clamp_def)

lemma walk_dims_rect: "rect (nat h) (nat w) g \<Longrightarrow> 0 < h \<Longrightarrow> 0 \<le> w \<Longrightarrow> walk_dims g = (h, w)"
  using rect_length [of "nat h" "nat w" g] rect_row_length [of "nat h" "nat w" g 0]
  by (auto simp: walk_dims_def)

lemma lift_walk_of [simp]: "lift_walk env (walk_of env) = env"
  by (simp add: lift_walk_def walk_of_def)

lemma walk_of_lift_eq: "w_maze s = w_maze (walk_of env) \<Longrightarrow> walk_of (lift_walk env s) = s"
  by (cases s) (simp add: walk_of_def lift_walk_def)

lemma walk_of_fields [simp]: "w_pos (walk_of env) = agent env" "w_score (walk_of env) = score env"
  by (simp_all add: walk_of_def)

lemma walk_step_maze [simp]: "w_maze (snd (snd (walk_step s a))) = w_maze s"
  by (simp add: walk_step_def Let_def)

text \<open>The part of \<^verbatim>\<open>step\<close> that moves and scores is the walk's step, lifted.\<close>

lemma step_move_walk:
  assumes inv: "env_inv env" and g: "state env = Some g"
  shows "step_move env a = (case walk_step (walk_of env) a of (r, t, s') \<Rightarrow> Inr (r, t, lift_walk env s'))"
proof -
  obtain w h where sz: "maze_size env = (w, h)" by (cases "maze_size env")
  obtain i j where ag: "agent env = (i, j)" by (cases "agent env")
  have pos: "0 < w" "0 < h" and b: "0 \<le> i" "i < h" "0 \<le> j" "j < w" and r: "rect (nat h) (nat w) g"
    and goal: "end_cell env = (h - 1, w - 1)"
    using inv g by (auto simp: env_inv_def Let_def sz ag)
  have dims: "walk_dims g = (h, w)" using walk_dims_rect [OF r] pos by simp
  have wo: "walk_of env = \<lparr>w_maze = g, w_pos = (i, j), w_score = score env\<rparr>"
    by (simp add: walk_of_def g ag)
  show ?thesis
  proof (cases "score env = -2 \<or> a \<notin> {0..3}")
    case True
    then show ?thesis using lift_walk_of [of env] by (auto simp: step_move_def walk_step_def reward_range_def wo)
  next
    case False
    have tgt: "walk_target (walk_dims g) (i, j) a = move_target (w, h) (i, j) a"
      using walk_target_move [OF b] False dims by simp
    from move_agent_inv [OF inv g, of a] show ?thesis
    proof cases
      case 1
      then show ?thesis using False tgt lift_walk_of [of env]
        by (simp add: step_move_def walk_step_def wo sz ag walk_open_def reward_range_def)
    next
      case 2
      then show ?thesis using False tgt pos goal
        by (auto simp: step_move_def walk_step_def wo sz ag walk_open_def walk_goal_def dims
                       reward_range_def lift_walk_def Let_def mult.commute)
    qed
  qed
qed

lemma step_walk:
  assumes inv: "env_inv env" and g: "state env = Some g"
  shows "step env a =
           (case walk_step (walk_of env) a of (r, t, s') \<Rightarrow>
              Inr ((get_observation (lift_walk env s'), r, t, w_score s' \<le> fst reward_range,
                    get_info (lift_walk env s')), lift_walk env s'))"
  using env_inv_clock [OF inv] g step_move_walk [OF inv g, of a]
  by (auto simp: step_def lift_walk_def split: prod.splits)

lemma step_walk_Inr:
  assumes inv: "env_inv env" and g: "state env = Some g" and ws: "walk_step (walk_of env) a = (r, t, s1)"
  shows "step env a = Inr ((get_observation (lift_walk env s1), r, t, w_score s1 \<le> fst reward_range,
                            get_info (lift_walk env s1)), lift_walk env s1)"
    and "env_inv (lift_walk env s1)" "walk_of (lift_walk env s1) = s1" "state (lift_walk env s1) = Some g"
proof -
  show st: "step env a = Inr ((get_observation (lift_walk env s1), r, t, w_score s1 \<le> fst reward_range,
                            get_info (lift_walk env s1)), lift_walk env s1)"
    using step_walk [OF inv g, of a] ws by simp
  show "env_inv (lift_walk env s1)" by (rule step_inv [OF inv st])
  show "walk_of (lift_walk env s1) = s1"
    using walk_step_maze [of "walk_of env" a] ws by (simp add: walk_of_lift_eq)
  show "state (lift_walk env s1) = Some g" using g by (simp add: lift_walk_def)
qed

subsection \<open>Facts shared by the proofs on walks\<close>

lemma clamp_in [simp]: "0 \<le> x \<Longrightarrow> x < n \<Longrightarrow> clamp n x = x"
  by (simp add: clamp_def)
lemma int_range4: "(a::int) \<in> {0..3} \<longleftrightarrow> a \<in> set [0, 1, 2, 3]"
  by auto

lemma env_walk_facts:
  assumes "env_inv env" "state env = Some g"
  obtains w h where "maze_size env = (w, h)" "walk_dims g = (h, w)" "0 < w" "0 < h"
    "0 \<le> fst (agent env)" "fst (agent env) < h" "0 \<le> snd (agent env)" "snd (agent env) < w"
    "walk_open g (agent env)"
proof -
  obtain w h where sz: "maze_size env = (w, h)" by (cases "maze_size env")
  have "rect (nat h) (nat w) g" "0 < w" "0 < h"
    "0 \<le> fst (agent env)" "fst (agent env) < h" "0 \<le> snd (agent env)" "snd (agent env) < w"
    "walk_open g (agent env)"
    using assms by (auto simp: env_inv_def Let_def sz walk_open_def)
  then show ?thesis using that sz walk_dims_rect by auto
qed

end
