(* ===== verification/Play.thy ===== *)
theory Play
  imports Walk "HOL-Library.Char_ord"
begin

text \<open>
  How the environment is run. \<^verbatim>\<open>src/src/maze_env/__init__.py\<close> registers it with
  Gymnasium as \<^verbatim>\<open>maze_env/Maze-v0\<close> (\<open>maze_v0\<close>, the registry entry, with no step
  limit); \<^verbatim>\<open>src/src/maze_env/main.py\<close> builds a 31x21 environment in the
  \<^verbatim>\<open>rgb_array\<close> mode (\<open>main_env\<close>) and hands it to Gymnasium's interactive
  \<^verbatim>\<open>play\<close> with a key map and the no-op action -1 (\<open>keys_to_action\<close>, \<open>noop\<close>,
  \<open>main_play\<close>). The loop of \<^verbatim>\<open>gymnasium.utils.play.play\<close> is library code; it is
  modelled from its documented behaviour as \<open>play\<close> and \<open>play_frame\<close>: reset once,
  check the render mode, then per frame reset if the last step ended the episode and
  step with the pressed keys' action otherwise, and render the frame. \<open>episode\<close> is
  the agent loop of Gymnasium's documentation (step until terminated or truncated),
  a \<^theory_text>\<open>partial_function\<close> because an episode need not end.
\<close>

subsection \<open>Registration and the play script\<close>

record env_spec =
  spec_id :: string
  entry_point :: string
  reward_threshold :: int
  max_episode_steps :: "nat option"

definition maze_v0 :: env_spec where
  "maze_v0 = \<lparr>spec_id = ''maze_env/Maze-v0'', entry_point = ''maze_env.envs.MazeEnv:MazeEnv'',
              reward_threshold = 100, max_episode_steps = None\<rparr>"

definition main_env :: "py_error + maze_env" where
  "main_env = maze_env_init (Dims 31 21) (Some ''rgb_array'')"

definition keys_to_action :: "(string \<times> int) list" where
  "keys_to_action = [(''a'', 0), (''w'', 1), (''d'', 2), (''s'', 3)]"

definition noop :: int where
  "noop = -1"

text \<open>\<^verbatim>\<open>play\<close> looks the sorted pressed keys up among the sorted key combinations of the
  map and falls back to the no-op action.\<close>

definition key_action :: "string \<Rightarrow> int" where
  "key_action pressed =
     (case map_of (map (\<lambda>(k, a). (sort k, a)) keys_to_action) (sort pressed) of
        Some a \<Rightarrow> a
      | None \<Rightarrow> noop)"

subsection \<open>The play loop\<close>

record play_state =
  ps_env :: maze_env
  ps_done :: bool

definition play_frame :: "generator \<Rightarrow> int option \<Rightarrow> play_state \<Rightarrow> string \<Rightarrow> py_error + draw_op list \<times> play_state" where
  "play_frame gen seed ps pressed =
     (let (r, env1, done1) =
        (if ps_done ps
         then (case reset gen seed (ps_env ps) of
                 (Inl e, env') \<Rightarrow> (Inl e, env', False)
               | (Inr _, env') \<Rightarrow> (Inr (), env', False))
         else (case step (ps_env ps) (key_action pressed) of
                 Inl e \<Rightarrow> (Inl e, ps_env ps, False)
               | Inr (out, env') \<Rightarrow> (Inr (), env', result_terminated out \<or> result_truncated out)))
      in case r of
           Inl e \<Rightarrow> Inl e
         | Inr _ \<Rightarrow>
             (case render env1 of
                (Inl e, _) \<Rightarrow> Inl e
              | (Inr None, _) \<Rightarrow> Inl AssertionError
              | (Inr (Some frame), env2) \<Rightarrow> Inr (frame, \<lparr>ps_env = env2, ps_done = done1\<rparr>)))"

fun play_frames :: "generator \<Rightarrow> int option \<Rightarrow> play_state \<Rightarrow> string list \<Rightarrow> py_error + draw_op list list \<times> play_state" where
  "play_frames gen seed ps [] = Inr ([], ps)"
| "play_frames gen seed ps (k # ks) =
     (case play_frame gen seed ps k of
        Inl e \<Rightarrow> Inl e
      | Inr (frame, ps') \<Rightarrow>
          (case play_frames gen seed ps' ks of
             Inl e \<Rightarrow> Inl e
           | Inr (frames, ps'') \<Rightarrow> Inr (frame # frames, ps'')))"

definition play :: "generator \<Rightarrow> int option \<Rightarrow> maze_env \<Rightarrow> string list \<Rightarrow> py_error + draw_op list list \<times> play_state" where
  "play gen seed env keys =
     (case reset gen seed env of
        (Inl e, _) \<Rightarrow> Inl e
      | (Inr _, env1) \<Rightarrow>
          if render_mode env1 \<noteq> Some Rgb_array then Inl ValueError
          else play_frames gen seed \<lparr>ps_env = env1, ps_done = True\<rparr> keys)"

definition main_play :: "generator \<Rightarrow> string list \<Rightarrow> py_error + draw_op list list \<times> play_state" where
  "main_play gen keys = (case main_env of Inl e \<Rightarrow> Inl e | Inr env \<Rightarrow> play gen None env keys)"

subsection \<open>The agent loop\<close>

partial_function (option) episode ::
  "(int \<Rightarrow> int) \<Rightarrow> maze_env \<Rightarrow> (py_error + step_result list \<times> maze_env) option" where
  "episode policy env =
     (case step env (policy (get_observation env)) of
        Inl e \<Rightarrow> Some (Inl e)
      | Inr (r, env') \<Rightarrow>
          if result_terminated r \<or> result_truncated r then Some (Inr ([r], env'))
          else Option.bind (episode policy env')
                 (\<lambda>res. Some (case res of Inl e \<Rightarrow> Inl e | Inr (rs, e'') \<Rightarrow> Inr (r # rs, e''))))"

text \<open>The invariant of the play loop: the object keeps the environment's invariant, has a
  maze, and stays in the \<^verbatim>\<open>rgb_array\<close> mode; its score is at most 1, and at most 0
  while the episode runs (a positive reward ends the episode, and play then resets).\<close>

definition ps_ok :: "play_state \<Rightarrow> bool" where
  "ps_ok ps \<longleftrightarrow> env_inv (ps_env ps) \<and> state (ps_env ps) \<noteq> None \<and> render_mode (ps_env ps) = Some Rgb_array
                \<and> score (ps_env ps) \<le> 1 \<and> (\<not> ps_done ps \<longrightarrow> score (ps_env ps) \<le> 0)"

subsection \<open>Frames of the play loop\<close>

lemma penalty_nonpos: "0 < (A::int) \<Longrightarrow> - 1 / of_int A \<le> (0::rat)"
  by simp

lemma walk_step_reward:
  assumes "0 < fst (walk_dims (w_maze s)) * snd (walk_dims (w_maze s))"
  shows "fst (walk_step s a) \<le> 0 \<or> (fst (walk_step s a) = 1 \<and> fst (snd (walk_step s a)))"
  using penalty_nonpos [OF assms] by (auto simp: walk_step_def Let_def)

lemma walk_step_score: "w_score (snd (snd (walk_step s a))) = w_score s + fst (walk_step s a)"
  by (simp add: walk_step_def Let_def)

lemma rgb_render_frame:
  assumes "env_inv env" "state env \<noteq> None" "render_mode env = Some Rgb_array"
  shows "\<exists>frame env2. render env = (Inr (Some frame), env2)
           \<and> env_inv env2 \<and> state env2 \<noteq> None \<and> render_mode env2 = Some Rgb_array
           \<and> score env2 = score env"
proof -
  obtain g where g: "state env = Some g" using assms(2) by auto
  obtain tm where tm: "env_tilemap env = Some tm" using env_inv_tilemap [OF assms(1) g] by auto
  obtain ops where "fst (render env) = Inr (Some ops)" using render_drawn [OF tm _ env_inv_video [OF assms(1)]] assms(3) by auto
  then show ?thesis using render_inv [OF assms(1)] render_keeps [of env] assms
    by (cases "render env") auto
qed

lemma play_frame_ok:
  assumes gen: "gen_ok gen" and ok: "ps_ok ps"
  shows "\<exists>frame ps'. play_frame gen seed ps k = Inr (frame, ps') \<and> ps_ok ps'"
proof -
  have inv: "env_inv (ps_env ps)" and st: "state (ps_env ps) \<noteq> None"
    and mode: "render_mode (ps_env ps) = Some Rgb_array"
    and sc: "score (ps_env ps) \<le> 1" "\<not> ps_done ps \<longrightarrow> score (ps_env ps) \<le> 0"
    using ok by (simp_all add: ps_ok_def)
  obtain env1 d where pre: "(if ps_done ps
         then (case reset gen seed (ps_env ps) of
                 (Inl e, env') \<Rightarrow> (Inl e, env', False)
               | (Inr _, env') \<Rightarrow> (Inr (), env', False))
         else (case step (ps_env ps) (key_action k) of
                 Inl e \<Rightarrow> (Inl e, ps_env ps, False)
               | Inr (out, env') \<Rightarrow> (Inr (), env', result_terminated out \<or> result_truncated out)))
        = (Inr (), env1, d)"
    and e1: "env_inv env1" "state env1 \<noteq> None" "render_mode env1 = Some Rgb_array"
    and s1: "score env1 \<le> 1" "\<not> d \<longrightarrow> score env1 \<le> 0"
  proof (cases "ps_done ps")
    case True
    have "\<exists>obs. fst (reset gen seed (ps_env ps)) = Inr obs" using reset_Inr [OF gen inv, where seed = seed] mode by simp
    then obtain obs e where r: "reset gen seed (ps_env ps) = (Inr obs, e)"
      by (cases "reset gen seed (ps_env ps)") auto
    have "env_inv e" using reset_inv [OF gen inv, of seed] r by simp
    then show ?thesis using that [of e False] True reset_start [of gen seed "ps_env ps"] mode r by simp
  next
    case False
    obtain g where g: "state (ps_env ps) = Some g" using st by auto
    obtain r t s1 where ws: "walk_step (walk_of (ps_env ps)) (key_action k) = (r, t, s1)"
      by (cases "walk_step (walk_of (ps_env ps)) (key_action k)")
    note S = step_walk_Inr [OF inv g ws]
    obtain w h where "walk_dims g = (h, w)" "0 < w" "0 < h" by (rule env_walk_facts [OF inv g]) auto
    then have "r \<le> 0 \<or> (r = 1 \<and> t)" using walk_step_reward [of "walk_of (ps_env ps)" "key_action k"] ws g
      by (simp add: walk_of_def)
    moreover have "w_score s1 = score (ps_env ps) + r" using walk_step_score [of "walk_of (ps_env ps)" "key_action k"] ws by simp
    ultimately show ?thesis using that [of "lift_walk (ps_env ps) s1"] False S(1,2,4) mode sc
      by (auto simp: lift_walk_def result_terminated_def result_truncated_def)
  qed
  obtain frame env2 where "render env1 = (Inr (Some frame), env2)" "env_inv env2"
    "state env2 \<noteq> None" "render_mode env2 = Some Rgb_array" "score env2 = score env1"
    using rgb_render_frame [OF e1] by auto
  then show ?thesis using s1
    by (intro exI [of _ frame] exI [of _ "\<lparr>ps_env = env2, ps_done = d\<rparr>"])
       (simp add: play_frame_def pre ps_ok_def)
qed

lemma play_frames_ok:
  assumes "gen_ok gen" "ps_ok ps"
  shows "\<exists>frames ps'. play_frames gen seed ps ks = Inr (frames, ps') \<and> length frames = length ks \<and> ps_ok ps'"
  using assms(2)
proof (induction ks arbitrary: ps)
  case Nil
  then show ?case by simp
next
  case (Cons k ks)
  obtain frame ps1 where f: "play_frame gen seed ps k = Inr (frame, ps1)" "ps_ok ps1"
    using play_frame_ok [OF assms(1) Cons.prems, where seed = seed and k = k] by auto
  obtain frames ps' where "play_frames gen seed ps1 ks = Inr (frames, ps')" "length frames = length ks" "ps_ok ps'"
    using Cons.IH [OF f(2)] by auto
  then show ?case using f(1) by simp
qed

subsection \<open>Rewards within an episode\<close>

lemma step_reward_sign:
  assumes inv: "env_inv env" and g: "state env = Some g" and st: "step env a = Inr (r, env')"
  shows "(result_reward r \<le> 0 \<or> (result_reward r = 1 \<and> result_terminated r))
         \<and> env_inv env' \<and> state env' = Some g"
proof -
  obtain r' t s1 where ws: "walk_step (walk_of env) a = (r', t, s1)" by (cases "walk_step (walk_of env) a")
  note S = step_walk_Inr [OF inv g ws]
  obtain w h where "walk_dims g = (h, w)" "0 < w" "0 < h" by (rule env_walk_facts [OF inv g]) auto
  then have "r' \<le> 0 \<or> (r' = 1 \<and> t)" using walk_step_reward [of "walk_of env" a] ws g
    by (simp add: walk_of_def)
  then show ?thesis using S st by (auto simp: result_reward_def result_terminated_def)
qed

subsection \<open>Episodes of the agent loop\<close>

lemma penalty_succ: "(A::int) \<noteq> 0 \<Longrightarrow> - of_int n / of_int A - 1 / of_int A = - of_int (n + 1) / (of_int A :: rat)"
  by (simp add: field_simps)

lemma push_up_step:
  assumes inv: "env_inv env" and g: "state env = Some g" and ag: "agent env = (0, 0)"
    and sz: "maze_size env = (w, h)" and sc: "score env \<noteq> -2" and ne: "(0, 0) \<noteq> end_cell env"
  obtains e1 where
    "step env 1 = Inr ((get_observation e1, - 1 / of_int (h * w), False, score e1 \<le> -2, get_info e1), e1)"
    "env_inv e1" "state e1 = Some g" "agent e1 = (0, 0)" "maze_size e1 = (w, h)" "end_cell e1 = end_cell env"
    "score e1 = score env - 1 / of_int (h * w)"
proof -
  obtain w' h' where f: "maze_size env = (w', h')" "walk_dims g = (h', w')" "0 < w'" "0 < h'"
      "walk_open g (agent env)"
    by (rule env_walk_facts [OF inv g]) auto
  have hw: "h' = h" "w' = w" using f(1) sz by simp_all
  have goal: "end_cell env = walk_goal g" using inv f(1,2) by (simp add: env_inv_def Let_def walk_goal_def)
  have tgt: "walk_target (h, w) (0, 0) 1 = (0, 0)" using f(3,4) hw by (simp add: walk_target_def delta_def clamp_def)
  let ?s1 = "(walk_of env)\<lparr>w_pos := (0, 0), w_score := score env + - 1 / of_int (h * w)\<rparr>"
  have ws: "walk_step (walk_of env) 1 = (- 1 / of_int (h * w), False, ?s1)"
    using tgt f(2,5) hw ag sc ne goal by (simp add: walk_step_def walk_of_def g Let_def)
  note S = step_walk_Inr [OF inv g ws]
  show ?thesis
    by (rule that [of "lift_walk env ?s1"]) (use S sz ag in \<open>simp_all add: lift_walk_def reward_range_def\<close>)
qed

lemma push_up_episode:
  assumes "env_inv env" "state env = Some g" "agent env = (0, 0)" "maze_size env = (w, h)"
    and "score env = - of_int n / of_int (h * w)" "n + int (Suc m) = 2 * (h * w)"
    and "(0, 0) \<noteq> end_cell env"
  shows "\<exists>rs env'. episode (\<lambda>_. 1) env = Some (Inr (rs, env')) \<and> length rs = Suc m
           \<and> result_truncated (last rs) \<and> \<not> result_terminated (last rs)"
  using assms
proof (induction m arbitrary: env n)
  case (0 env n)
  have pos: "0 < h * w" using 0 by (auto simp: env_inv_def Let_def)
  have hw0: "h * w \<noteq> 0" using pos by linarith
  have "score env \<noteq> -2" using 0(5,6) penalties_floor_eq [OF pos, of n] by simp
  then obtain e1 where e1: "step env 1 = Inr ((get_observation e1, - 1 / of_int (h * w), False, score e1 \<le> -2, get_info e1), e1)"
      "score e1 = score env - 1 / of_int (h * w)"
    by (rule push_up_step [OF 0(1-4) _ 0(7)]) blast
  have "score e1 = - of_int n / of_int (h * w) - 1 / of_int (h * w)" by (simp only: e1(2) 0(5))
  then have "score e1 = - of_int (n + 1) / of_int (h * w)" by (rule trans [OF _ penalty_succ [OF hw0]])
  then have "score e1 \<le> -2" using penalties_floor [OF pos, of "n + 1"] 0(6) by simp
  then show ?case using e1(1) by (simp add: episode.simps result_terminated_def result_truncated_def)
next
  case (Suc m env n)
  have pos: "0 < h * w" using Suc.prems by (auto simp: env_inv_def Let_def)
  have hw0: "h * w \<noteq> 0" using pos by linarith
  have "score env \<noteq> -2" using Suc.prems(5,6) penalties_floor_eq [OF pos, of n] by simp
  then obtain e1 where e1: "step env 1 = Inr ((get_observation e1, - 1 / of_int (h * w), False, score e1 \<le> -2, get_info e1), e1)"
      "env_inv e1" "state e1 = Some g" "agent e1 = (0, 0)" "maze_size e1 = (w, h)" "end_cell e1 = end_cell env"
      "score e1 = score env - 1 / of_int (h * w)"
    by (rule push_up_step [OF Suc.prems(1-4) _ Suc.prems(7)])
  have "score e1 = - of_int n / of_int (h * w) - 1 / of_int (h * w)" by (simp only: e1(7) Suc.prems(5))
  then have s1: "score e1 = - of_int (n + 1) / of_int (h * w)" by (rule trans [OF _ penalty_succ [OF hw0]])
  then have "\<not> score e1 \<le> -2" using penalties_floor [OF pos, of "n + 1"] Suc.prems(6) by simp
  moreover obtain rs env' where "episode (\<lambda>_. 1) e1 = Some (Inr (rs, env'))" "length rs = Suc m"
      "result_truncated (last rs)" "\<not> result_terminated (last rs)"
    using Suc.IH [OF e1(2-5) s1] Suc.prems(6,7) e1(6) by auto
  moreover from \<open>length rs = Suc m\<close> have "rs \<noteq> []" by auto
  ultimately show ?case using e1(1)
    by (subst episode.simps) (simp add: result_terminated_def result_truncated_def)
qed

lemma noop_episode_aux:
  assumes ret: "episode p e = Some y"
  shows "p = (\<lambda>_. noop) \<longrightarrow> env_inv e \<longrightarrow> state e \<noteq> None \<longrightarrow> score e \<noteq> fst reward_range \<longrightarrow> False"
proof (rule episode.raw_induct [where P = "\<lambda>p e y. p = (\<lambda>_. noop) \<longrightarrow> env_inv e \<longrightarrow> state e \<noteq> None
                                          \<longrightarrow> score e \<noteq> fst reward_range \<longrightarrow> False", OF _ ret])
  fix f p e y
  assume IH: "\<And>p e y. f p e = Some y \<Longrightarrow> p = (\<lambda>_. noop) \<longrightarrow> env_inv e \<longrightarrow> state e \<noteq> None
                                          \<longrightarrow> score e \<noteq> fst reward_range \<longrightarrow> False"
    and eq: "(case step e (p (get_observation e)) of
               Inl ex \<Rightarrow> Some (Inl ex)
             | Inr (r, e') \<Rightarrow>
                 if result_terminated r \<or> result_truncated r then Some (Inr ([r], e'))
                 else Option.bind (f p e')
                        (\<lambda>res. Some (case res of Inl ex \<Rightarrow> Inl ex | Inr (rs, e'') \<Rightarrow> Inr (r # rs, e'')))) = Some y"
  show "p = (\<lambda>_. noop) \<longrightarrow> env_inv e \<longrightarrow> state e \<noteq> None \<longrightarrow> score e \<noteq> fst reward_range \<longrightarrow> False"
  proof (intro impI)
    assume p: "p = (\<lambda>_. noop)" and inv: "env_inv e" and st: "state e \<noteq> None" and sc: "score e \<noteq> fst reward_range"
    obtain g where g: "state e = Some g" using st by auto
    have "walk_step (walk_of e) noop = (0, False, walk_of e)" by (simp add: walk_step_def noop_def Let_def)
    note S = step_walk_Inr [OF inv g this]
    have "\<not> score e \<le> -2" using inv sc by (auto simp: env_inv_def Let_def reward_range_def)
    then obtain z where "f p e = Some z"
      using eq S(1) p by (auto simp: result_terminated_def result_truncated_def reward_range_def split: Option.bind_splits)
    then show False using IH p inv st sc by blast
  qed
qed

subsection \<open>The play script\<close>

lemma main_play_ok:
  assumes "gen_ok gen"
  shows "\<exists>frames ps. main_play gen keys = Inr (frames, ps) \<and> length frames = length keys \<and> ps_ok ps"
proof -
  obtain e0 where e0: "main_env = Inr e0" "maze_size e0 = (31, 21)" "render_mode e0 = Some Rgb_array"
    by (simp add: main_env_def maze_env_init_def mode_of_string_def)
  have inv: "env_inv e0"
    using init_inv [of "Dims 31 21" "Some ''rgb_array''" e0] e0 by (simp add: main_env_def)
  have "\<exists>obs. fst (reset gen None e0) = Inr obs" using reset_Inr [OF assms inv, where seed = None] e0(3) by simp
  then obtain obs e1 where r: "reset gen None e0 = (Inr obs, e1)" by (cases "reset gen None e0") auto
  have ok: "ps_ok \<lparr>ps_env = e1, ps_done = True\<rparr>"
    using reset_inv [OF assms inv, of None] reset_start [of gen None e0] e0(3) r by (simp add: ps_ok_def)
  have mode: "render_mode e1 = Some Rgb_array" using reset_start [of gen None e0] e0(3) r by simp
  obtain frames ps' where "play_frames gen None \<lparr>ps_env = e1, ps_done = True\<rparr> keys = Inr (frames, ps')"
      "length frames = length keys" "ps_ok ps'"
    using play_frames_ok [OF assms ok, where seed = None and ks = keys] by auto
  then show ?thesis by (simp add: main_play_def play_def e0(1) r mode)
qed

section \<open>Properties of running the environment\<close>

text \<open>
  C19. \<^verbatim>\<open>main.py\<close> never raises, whatever keys the player presses, given a generator
  that meets its contract: Gymnasium's \<^verbatim>\<open>play\<close> accepts the \<^verbatim>\<open>rgb_array\<close> mode,
  every frame's reset or step succeeds, and every render returns a frame.
\<close>

theorem main_play_never_raises:
  assumes "gen_ok gen"
  shows "\<exists>frames ps. main_play gen keys = Inr (frames, ps) \<and> length frames = length keys"
  using main_play_ok [OF assms, of keys] by blast

theorem main_play_never_raises_witness:
  "\<exists>frames ps. main_play demo_gen [''d'', ''s'', ''ad''] = Inr (frames, ps) \<and> length frames = 3"
  using main_play_never_raises [OF demo_gen_ok, of "[''d'', ''s'', ''ad'']"] by (simp add: numeral_3_eq_3)

text \<open>
  C20. The return of an episode (the rewards of a run of steps after a reset, none but
  the last terminated) is at most 1, so it never reaches the \<^verbatim>\<open>reward_threshold\<close> of
  100 that \<^verbatim>\<open>__init__.py\<close> registers.
\<close>

theorem episode_return_bound:
  assumes "env_inv env" "state env \<noteq> None" "run env as = Inr (rs, env')"
    and "\<forall>r \<in> set (butlast rs). \<not> result_terminated r"
  shows "sum_list (map result_reward rs) \<le> 1
         \<and> sum_list (map result_reward rs) < of_int (reward_threshold maze_v0)"
proof -
  have "sum_list (map result_reward rs) \<le> 1" using assms
  proof (induction as arbitrary: env rs)
    case Nil
    then show ?case by simp
  next
    case (Cons a as)
    obtain r e1 rs' where st: "step env a = Inr (r, e1)" and rn: "run e1 as = Inr (rs', env')"
      and rs: "rs = r # rs'"
      using Cons.prems(3) by (rule run_Cons_Inr)
    obtain g where g: "state env = Some g" using Cons.prems(2) by auto
    note R = step_reward_sign [OF Cons.prems(1) g st]
    show ?case
    proof (cases "rs' = []")
      case True
      then show ?thesis using R rs by auto
    next
      case False
      then have "\<not> result_terminated r" "\<forall>x \<in> set (butlast rs'). \<not> result_terminated x"
        using Cons.prems(4) rs by (auto simp: butlast.simps in_set_butlastD)
      moreover have "sum_list (map result_reward rs') \<le> 1"
        using Cons.IH [OF _ _ rn] R calculation(2) by simp
      ultimately show ?thesis using R rs by auto
    qed
  qed
  then show ?thesis by (simp add: maze_v0_def)
qed

theorem episode_return_bound_witness:
  "sum_list (map result_reward (fst (projr (run (snd (reset demo_gen None demo_env)) [2, 2, 3, 3])))) = 2 / 3
   \<and> sum_list (map result_reward (fst (projr (run (snd (reset demo_gen None demo_env)) [2, 2, 3, 3])))) \<le> 1"
proof -
  let ?r = "run (snd (reset demo_gen None demo_env)) [2, 2, 3, 3]"
  have inv: "env_inv (snd (reset demo_gen None demo_env))" by code_simp
  have st0: "?r = Inr (projr ?r)" by code_simp
  obtain rs e where p: "projr ?r = (rs, e)" by (cases "projr ?r")
  have r: "?r = Inr (rs, e)" using st0 p by simp
  have nt: "\<forall>x \<in> set (butlast (fst (projr ?r))). \<not> result_terminated x" by code_simp
  have s: "sum_list (map result_reward (fst (projr ?r))) = 2 / 3" by code_simp
  show ?thesis using episode_return_bound [OF inv _ r] demo_reset_state nt s p by simp
qed

text \<open>
  C21. Termination: the agent loop that always pushes up ends every episode that starts
  with a reset, without an exception. On a 1x1 maze, where the start is the goal, the
  first step terminates; on every other maze no step terminates, since the pushes into
  the top border never leave the start, and the last step is truncated: the accepted
  pushes keep paying the penalty until the score reaches the floor.
\<close>

theorem push_up_episode_ends:
  assumes gen: "gen_ok gen" and inv: "env_inv env"
  shows "\<exists>rs env'. episode (\<lambda>_. 1) (snd (reset gen seed env)) = Some (Inr (rs, env')) \<and> rs \<noteq> []
           \<and> (if maze_size env = (1, 1) then result_terminated (last rs)
              else result_truncated (last rs) \<and> \<not> result_terminated (last rs))"
proof -
  let ?e = "snd (reset gen seed env)"
  obtain w h where sz: "maze_size env = (w, h)" by (cases "maze_size env")
  have inv1: "env_inv ?e" by (rule reset_inv [OF gen inv])
  have st: "agent ?e = (0, 0)" "state ?e = Some (gen (w, h) seed)" "maze_size ?e = (w, h)" "score ?e = 0"
    using reset_start [of gen seed env] sz by simp_all
  have pos: "0 < w" "0 < h" and goal: "end_cell ?e = (h - 1, w - 1)"
    using inv1 st(3) by (auto simp: env_inv_def Let_def)
  show ?thesis
  proof (cases "(w, h) = (1, 1)")
    case True
    obtain w' h' where f: "maze_size ?e = (w', h')" "walk_dims (gen (w, h) seed) = (h', w')"
        "walk_open (gen (w, h) seed) (agent ?e)"
      by (rule env_walk_facts [OF inv1 st(2)]) auto
    let ?s1 = "(walk_of ?e)\<lparr>w_pos := (0, 0), w_score := 1\<rparr>"
    have "walk_step (walk_of ?e) 1 = (1, True, ?s1)"
      using f True st by (simp add: walk_step_def walk_of_def walk_target_def delta_def clamp_def walk_goal_def Let_def)
    from step_walk_Inr(1) [OF inv1 st(2) this] show ?thesis
      using True sz by (subst episode.simps) (simp add: result_terminated_def)
  next
    case False
    have ne: "(0, 0) \<noteq> end_cell ?e" using False pos goal by auto
    have hw: "0 < h * w" using pos by simp
    have "0 + int (Suc (nat (2 * (h * w)) - 1)) = 2 * (h * w)" using hw by simp
    from push_up_episode [OF inv1 st(2,1,3) _ this ne] st(4)
    obtain rs env' where "episode (\<lambda>_. 1) ?e = Some (Inr (rs, env'))" "length rs = Suc (nat (2 * (h * w)) - 1)"
        "result_truncated (last rs)" "\<not> result_terminated (last rs)"
      by auto
    then show ?thesis using False sz by auto
  qed
qed

theorem push_up_episode_ends_witness:
  "\<exists>rs env'. episode (\<lambda>_. 1) (snd (reset demo_gen None demo_env)) = Some (Inr (rs, env')) \<and> rs \<noteq> []
     \<and> result_truncated (last rs)"
proof -
  have inv: "env_inv demo_env" using init_inv [OF demo_env_init] by (simp add: demo_env_def)
  show ?thesis using push_up_episode_ends [OF demo_gen_ok inv, of None] by (auto simp: demo_env_def)
qed

text \<open>
  C22. Non-termination: an agent that only sends the no-op action (what \<^verbatim>\<open>play\<close>
  sends when no key is pressed) never ends an episode above the floor: the step changes
  nothing and reports neither termination nor truncation, and the registration sets no
  step limit.
\<close>

theorem noop_episode_never_ends:
  assumes "env_inv env" "state env \<noteq> None" "score env \<noteq> fst reward_range"
  shows "episode (\<lambda>_. noop) env = None"
  using noop_episode_aux [of "\<lambda>_. noop" env] assms by (cases "episode (\<lambda>_. noop) env") auto

theorem noop_episode_never_ends_witness: "episode (\<lambda>_. noop) (snd (reset demo_gen None demo_env)) = None"
proof -
  have "env_inv (snd (reset demo_gen None demo_env))" "score (snd (reset demo_gen None demo_env)) \<noteq> fst reward_range" by code_simp+
  then show ?thesis using noop_episode_never_ends demo_reset_state by simp
qed



text \<open>
  C24. The key map of \<^verbatim>\<open>main.py\<close> agrees with the directions that the comments of
  \<^verbatim>\<open>MazeEnv.step\<close> give the actions (0 left, 1 up, 2 right, 3 down): from an inner
  cell, \<^verbatim>\<open>a\<close>, \<^verbatim>\<open>w\<close>, \<^verbatim>\<open>d\<close> and \<^verbatim>\<open>s\<close> move the agent's target one cell
  left, up, right and down; every other combination of pressed keys gives an action
  outside \<^verbatim>\<open>range(4)\<close>, which \<^verbatim>\<open>step\<close> ignores.
\<close>

theorem key_map_directions:
  assumes "0 < i" "i + 1 < h" "0 < j" "j + 1 < w"
  shows "move_target (w, h) (i, j) (key_action ''a'') = (i, j - 1)
       \<and> move_target (w, h) (i, j) (key_action ''w'') = (i - 1, j)
       \<and> move_target (w, h) (i, j) (key_action ''d'') = (i, j + 1)
       \<and> move_target (w, h) (i, j) (key_action ''s'') = (i + 1, j)
       \<and> (key_action p \<in> {0..3} \<longleftrightarrow> sort p \<in> set [''a'', ''w'', ''d'', ''s''])"
proof -
  have moves: "move_target (w, h) (i, j) (key_action ''a'') = (i, j - 1)"
    "move_target (w, h) (i, j) (key_action ''w'') = (i - 1, j)"
    "move_target (w, h) (i, j) (key_action ''d'') = (i, j + 1)"
    "move_target (w, h) (i, j) (key_action ''s'') = (i + 1, j)"
    using assms by (simp_all add: move_target_def key_action_def keys_to_action_def)
  have "key_action p \<in> {0..3} \<longleftrightarrow> sort p \<in> set [''a'', ''w'', ''d'', ''s'']"
    by (simp add: key_action_def keys_to_action_def noop_def)
  with moves show ?thesis by simp
qed

theorem key_map_directions_witness:
  "move_target (3, 3) (1, 1) (key_action ''w'') = (0, 1) \<and> key_action ''ad'' \<notin> {0..3}"
  using key_map_directions [of 1 3 1 3 "''ad''"] by simp

end
