(* ===== verification/Connectivity.thy ===== *)
theory Connectivity
  imports Walk
begin

text \<open>
  The maze generator's connectivity promise and what it buys. The specification treats
  \<^verbatim>\<open>labyrinthine.depth_first\<close> as an oracle whose grid has one connected path component
  reachable from the start cell. \<open>neighbours\<close> are the cells one accepted move away,
  \<open>cpath\<close> a chain of such moves, and \<open>flood\<close> an executable flood fill from the start;
  \<open>maze_connected\<close> says the fill reaches every passage. The lemmas turn a flood-fill
  hit into a path, cut the path's loops so that it visits each cell once, and drive the
  environment along it: the path is at most as long as the maze has cells, so its
  penalties stay above the score floor and the last move ends the episode on the goal.
\<close>

subsection \<open>Neighbours, paths and the flood fill\<close>

definition neighbours :: "int grid \<Rightarrow> int \<times> int \<Rightarrow> (int \<times> int) list" where
  "neighbours g p = filter (walk_open g) (map (walk_target (walk_dims g) p) [0, 1, 2, 3])"

fun cpath :: "int grid \<Rightarrow> int \<times> int \<Rightarrow> (int \<times> int) list \<Rightarrow> bool" where
  "cpath g p [] = True"
| "cpath g p (q # qs) = (q \<in> set (neighbours g p) \<and> cpath g q qs)"

definition flood_step :: "int grid \<Rightarrow> (int \<times> int) list \<Rightarrow> (int \<times> int) list" where
  "flood_step g ps = remdups (ps @ concat (map (neighbours g) ps))"

fun flood :: "int grid \<Rightarrow> nat \<Rightarrow> (int \<times> int) list \<Rightarrow> (int \<times> int) list" where
  "flood g 0 ps = ps"
| "flood g (Suc n) ps = flood g n (flood_step g ps)"

definition maze_cells :: "int grid \<Rightarrow> (int \<times> int) list" where
  "maze_cells g = map (\<lambda>(i, j). (int i, int j)) (List.product [0..<length g] [0..<length (g ! 0)])"

text \<open>
  The contract: every passage is reached by the flood fill from the start cell. A fill
  of as many rounds as the maze has cells reaches every cell a path reaches, so this is
  the specification's single connected path component, decided by evaluation.
\<close>

definition maze_connected :: "int grid \<Rightarrow> bool" where
  "maze_connected g \<longleftrightarrow>
     (\<forall>c \<in> set (maze_cells g). walk_open g c \<longrightarrow> c \<in> set (flood g (length (maze_cells g)) [(0, 0)]))"

subsection \<open>Paths\<close>

lemma cpath_append: "cpath g p (xs @ ys) \<longleftrightarrow> cpath g p xs \<and> cpath g (last (p # xs)) ys"
  by (induction xs arbitrary: p) auto

lemma flood_sound:
  "q \<in> set (flood g n ps) \<Longrightarrow> \<exists>p \<in> set ps. \<exists>qs. cpath g p qs \<and> last (p # qs) = q"
proof (induction n arbitrary: ps)
  case 0
  then show ?case by (intro bexI [of _ q] exI [of _ "[]"]) auto
next
  case (Suc n)
  obtain p' qs where p': "p' \<in> set (flood_step g ps)" "cpath g p' qs" "last (p' # qs) = q"
    using Suc.IH [of "flood_step g ps"] Suc.prems by (simp only: flood.simps) blast
  from p'(1) consider "p' \<in> set ps" | p where "p \<in> set ps" "p' \<in> set (neighbours g p)"
    by (auto simp: flood_step_def)
  then show ?case
  proof cases
    case 1
    then show ?thesis using p'(2,3) by blast
  next
    case 2
    then show ?thesis using p'(2,3) by (intro bexI [of _ p] exI [of _ "p' # qs"]) auto
  qed
qed

text \<open>A path with a repeated cell loses the loop between the two visits.\<close>

lemma cpath_distinct:
  "cpath g p qs \<Longrightarrow> qs \<noteq> []
   \<Longrightarrow> \<exists>rs. cpath g p rs \<and> rs \<noteq> [] \<and> last rs = last qs \<and> distinct rs \<and> set rs \<subseteq> set qs"
proof (induction qs rule: length_induct)
  case (1 qs)
  show ?case
  proof (cases "distinct qs")
    case True
    then show ?thesis using "1.prems" by blast
  next
    case False
    then obtain xs y ys zs where d: "qs = xs @ [y] @ ys @ [y] @ zs" using not_distinct_decomp by blast
    let ?qs = "xs @ [y] @ zs"
    have "cpath g p ?qs" using "1.prems"(1) unfolding d by (simp add: cpath_append)
    moreover have "length ?qs < length qs" "?qs \<noteq> []" "last ?qs = last qs" "set ?qs \<subseteq> set qs"
      using d by auto
    ultimately obtain rs where "cpath g p rs" "rs \<noteq> []" "last rs = last ?qs" "distinct rs" "set rs \<subseteq> set ?qs"
      using "1.IH" by blast
    then show ?thesis using \<open>last ?qs = last qs\<close> \<open>set ?qs \<subseteq> set qs\<close>
      by (intro exI [of _ rs]) auto
  qed
qed

lemma neighbours_action:
  assumes "q \<in> set (neighbours g p)"
  shows "\<exists>a \<in> {0..3}. walk_target (walk_dims g) p a = q \<and> walk_open g q"
proof -
  have o: "walk_open g q" and "q \<in> walk_target (walk_dims g) p ` set [0, 1, 2, 3]"
    using assms unfolding neighbours_def set_filter set_map by blast+
  then obtain a where "a \<in> set [0, 1, 2, 3]" "walk_target (walk_dims g) p a = q" by blast
  then show ?thesis using o int_range4 [of a] by blast
qed

lemma clamp_bounds: "0 < n \<Longrightarrow> 0 \<le> clamp n x" "0 < n \<Longrightarrow> clamp n x < n"
  by (simp_all add: clamp_def)

lemma neighbours_box:
  "q \<in> set (neighbours g p) \<Longrightarrow> walk_dims g = (h, w) \<Longrightarrow> 0 < h \<Longrightarrow> 0 < w
   \<Longrightarrow> q \<in> {0..<h} \<times> {0..<w}"
  by (drule neighbours_action) (auto simp: walk_target_def clamp_bounds)

lemma cpath_box:
  "cpath g p qs \<Longrightarrow> walk_dims g = (h, w) \<Longrightarrow> 0 < h \<Longrightarrow> 0 < w \<Longrightarrow> set qs \<subseteq> {0..<h} \<times> {0..<w}"
  by (induction qs arbitrary: p) (auto dest: neighbours_box)

lemma distinct_box_length:
  assumes "distinct rs" "set rs \<subseteq> {0..<h} \<times> {0..<(w::int)}"
  shows "length rs \<le> nat h * nat w"
proof -
  have "length rs = card (set rs)" using assms(1) by (simp add: distinct_card)
  also have "\<dots> \<le> card ({0..<h} \<times> {0..<w})" using assms(2) by (intro card_mono) simp_all
  also have "\<dots> = nat h * nat w" by (simp add: card_cartesian_product)
  finally show ?thesis .
qed

text \<open>Pushing right on the goal, the far corner, bumps into the border and stays.\<close>

lemma goal_self_neighbour:
  "walk_dims g = (h, w) \<Longrightarrow> 0 < h \<Longrightarrow> 0 < w \<Longrightarrow> walk_open g (walk_goal g)
   \<Longrightarrow> walk_goal g \<in> set (neighbours g (walk_goal g))"
  by (simp add: neighbours_def walk_goal_def walk_target_def delta_def clamp_def)

lemma maze_cells_iff:
  "(i, j) \<in> set (maze_cells g) \<longleftrightarrow> 0 \<le> i \<and> i < int (length g) \<and> 0 \<le> j \<and> j < int (length (g ! 0))"
proof
  assume "0 \<le> i \<and> i < int (length g) \<and> 0 \<le> j \<and> j < int (length (g ! 0))"
  then have "(nat i, nat j) \<in> set (List.product [0..<length g] [0..<length (g ! 0)])"
    "(i, j) = (\<lambda>(i, j). (int i, int j)) (nat i, nat j)"
    by auto
  then show "(i, j) \<in> set (maze_cells g)" unfolding maze_cells_def set_map by (rule image_eqI [rotated])
qed (auto simp: maze_cells_def)


subsection \<open>Driving the environment along a path\<close>

text \<open>
  Along a path of distinct cells that ends on the goal, each step moves the agent to the
  next cell: the moves before the last pay the penalty, the last one terminates, and none
  is truncated as long as the penalties for the whole path stay above the floor.
\<close>

lemma path_run:
  assumes "env_inv env" "state env = Some g" "cpath g (agent env) qs" "distinct qs" "qs \<noteq> []"
    and "last qs = walk_goal g"
    and "-2 < score env - of_nat (length qs - 1) / of_int (fst (walk_dims g) * snd (walk_dims g))"
  shows "\<exists>as rs env'. run env as = Inr (rs, env') \<and> length as = length qs \<and> rs \<noteq> []
           \<and> result_terminated (last rs) \<and> (\<forall>r \<in> set rs. \<not> result_truncated r)"
  using assms
proof (induction qs arbitrary: env)
  case Nil
  then show ?case by simp
next
  case (Cons q qs)
  obtain w h where f: "walk_dims g = (h, w)" "0 < w" "0 < h"
    using env_walk_facts [OF Cons.prems(1,2)] by metis
  define A where "A = (of_int (h * w) :: rat)"
  have A: "0 < A" using f by (simp add: A_def)
  obtain a where a: "a \<in> {0..3}" "walk_target (h, w) (agent env) a = q" "walk_open g q"
    using neighbours_action [of q g "agent env"] Cons.prems(3) f(1) by auto
  have k0: "0 \<le> of_nat (length qs) / A" using A by simp
  have fl: "-2 < score env - of_nat (length qs) / A" using Cons.prems(7) f(1) by (simp add: A_def)
  then have sc: "score env \<noteq> -2" using k0 by linarith
  define r where "r = (if q = walk_goal g then 1 else - 1 / A)"
  define s1 where "s1 = \<lparr>w_maze = g, w_pos = q, w_score = score env + r\<rparr>"
  have ws: "walk_step (walk_of env) a = (r, q = walk_goal g, s1)"
    using a sc by (simp add: walk_step_def walk_of_def Cons.prems(2) f(1) r_def s1_def A_def Let_def)
  note S = step_walk_Inr [OF Cons.prems(1,2) ws]
  let ?e1 = "lift_walk env s1"
  let ?res = "(get_observation ?e1, r, q = walk_goal g, w_score s1 \<le> fst reward_range, get_info ?e1)"
  show ?case
  proof (cases "qs = []")
    case True
    then have goal: "q = walk_goal g" using Cons.prems(6) by simp
    have "run env [a] = Inr ([?res], ?e1)" using S(1) by simp
    moreover have "\<not> w_score s1 \<le> fst reward_range"
      using fl True goal by (simp add: s1_def r_def reward_range_def)
    ultimately show ?thesis using True goal
      by (intro exI [of _ "[a]"]) (simp add: result_terminated_def result_truncated_def)
  next
    case False
    have ng: "q \<noteq> walk_goal g" using Cons.prems(4,6) False last_in_set [OF False] by auto
    then have sc1: "w_score s1 = score env - 1 / A" by (simp add: s1_def r_def)
    have k1: "1 \<le> (of_nat (length qs) :: rat)" using False by (cases qs) simp_all
    have eq: "of_nat (length qs - 1) / A = of_nat (length qs) / A - 1 / A"
      using k1 by (simp add: of_nat_diff diff_divide_distrib)
    have "1 / A \<le> of_nat (length qs) / A" using k1 A by (simp add: divide_right_mono)
    then have nt: "\<not> w_score s1 \<le> fst reward_range" using fl sc1 by (simp add: reward_range_def)
    have fl1: "-2 < score ?e1 - of_nat (length qs - 1) / of_int (fst (walk_dims g) * snd (walk_dims g))"
      using fl sc1 eq f(1) by (simp add: lift_walk_def A_def)
    have "cpath g (agent ?e1) qs" "distinct qs" "last qs = walk_goal g"
      using Cons.prems(3,4,6) False by (simp_all add: lift_walk_def s1_def)
    then obtain as rs env' where IH: "run ?e1 as = Inr (rs, env')" "length as = length qs" "rs \<noteq> []"
        "result_terminated (last rs)" "\<forall>r \<in> set rs. \<not> result_truncated r"
      using Cons.IH [OF S(2,4) _ _ False _ fl1] by blast
    have "run env (a # as) = Inr (?res # rs, env')" using S(1) IH(1) by simp
    then show ?thesis using IH nt
      by (intro exI [of _ "a # as"]) (simp add: result_truncated_def)
  qed
qed


subsection \<open>Every connected maze can be won\<close>

text \<open>From the start cell there is a path of distinct cells to the goal.\<close>

lemma connected_goal_path:
  assumes con: "maze_connected g" and dims: "walk_dims g = (h, w)" "0 < h" "0 < w"
    and goal: "walk_open g (walk_goal g)"
  shows "\<exists>qs. cpath g (0, 0) qs \<and> qs \<noteq> [] \<and> last qs = walk_goal g \<and> distinct qs
           \<and> length qs \<le> nat h * nat w"
proof -
  have "walk_goal g \<in> set (maze_cells g)"
    using dims by (simp add: maze_cells_iff walk_goal_def walk_dims_def)
  then obtain qs where qs: "cpath g (0, 0) qs" "last ((0, 0) # qs) = walk_goal g"
    using con goal flood_sound [of "walk_goal g" g _ "[(0, 0)]"] by (auto simp: maze_connected_def)
  have "\<exists>qs. cpath g (0, 0) qs \<and> qs \<noteq> [] \<and> last qs = walk_goal g"
  proof (cases "qs = []")
    case True
    then show ?thesis
      using qs goal_self_neighbour [OF dims goal] by (intro exI [of _ "[walk_goal g]"]) simp
  next
    case False
    then show ?thesis using qs by auto
  qed
  then obtain ps where ps: "cpath g (0, 0) ps" "ps \<noteq> []" "last ps = walk_goal g" by blast
  obtain rs where rs: "cpath g (0, 0) rs" "rs \<noteq> []" "last rs = walk_goal g" "distinct rs"
    using cpath_distinct [OF ps(1,2)] ps(3) by auto
  have "length rs \<le> nat h * nat w" using distinct_box_length [OF rs(4) cpath_box [OF rs(1) dims]] .
  then show ?thesis using rs by blast
qed

text \<open>
  C26. Liveness with a bound: when the generator keeps its connectivity promise and the
  goal is a passage, every episode that a reset starts can be won. Some sequence of at
  most \<open>w * h\<close> actions runs without an exception, its last step terminates on the
  goal, and no step on the way is truncated: the score floor of \<open>-2\<close>, twice the area's
  worth of penalties, always leaves room for a shortest path.
\<close>

theorem reset_episode_winnable:
  assumes gen: "gen_ok gen" and re: "reachable gen env"
    and con: "maze_connected (gen (maze_size env) seed)"
    and goal: "walk_open (gen (maze_size env) seed) (walk_goal (gen (maze_size env) seed))"
  shows "\<exists>as rs env'. run (snd (reset gen seed env)) as = Inr (rs, env')
           \<and> 0 < length as \<and> length as \<le> nat (fst (maze_size env) * snd (maze_size env))
           \<and> result_terminated (last rs) \<and> (\<forall>r \<in> set rs. \<not> result_truncated r)"
proof -
  let ?e = "snd (reset gen seed env)"
  let ?m = "gen (maze_size env) seed"
  have inv: "env_inv ?e" by (rule reachable_inv [OF reachable.reset [OF re] gen])
  have st: "state ?e = Some ?m" "agent ?e = (0, 0)" "score ?e = 0" "maze_size ?e = maze_size env"
    using reset_start [of gen seed env] by simp_all
  obtain w h where f: "maze_size ?e = (w, h)" "walk_dims ?m = (h, w)" "0 < w" "0 < h"
    using env_walk_facts [OF inv st(1)] by metis
  obtain qs where qs: "cpath ?m (0, 0) qs" "qs \<noteq> []" "last qs = walk_goal ?m" "distinct qs"
      "length qs \<le> nat h * nat w"
    using connected_goal_path [OF con f(2,4,3) goal] by blast
  have lt: "of_nat (length qs - 1) < (of_int (h * w) :: rat)"
  proof -
    have l: "length qs - 1 < nat h * nat w" using qs(2,5) by (cases qs) auto
    have "int (length qs - 1) < int (nat h * nat w)" using l by (simp only: of_nat_less_iff)
    moreover have "int (nat h * nat w) = h * w" using f(3,4) by simp
    ultimately have "int (length qs - 1) < h * w" by linarith
    then show ?thesis by (metis of_int_less_iff of_int_of_nat_eq)
  qed
  have pos: "(0::rat) < of_int (h * w)" using f(3,4) by simp
  have "of_nat (length qs - 1) / of_int (h * w) < (1::rat)"
    using lt pos by (subst divide_less_eq_1) blast
  then have "-2 < score ?e - of_nat (length qs - 1) / of_int (fst (walk_dims ?m) * snd (walk_dims ?m))"
    using f(2) st(3) by simp
  then obtain as rs env' where r: "run ?e as = Inr (rs, env')" "length as = length qs" "rs \<noteq> []"
      "result_terminated (last rs)" "\<forall>r \<in> set rs. \<not> result_truncated r"
    using path_run [OF inv st(1) _ qs(4,2,3)] qs(1) st(2) by metis
  have "length as \<le> nat (fst (maze_size env) * snd (maze_size env))"
    using r(2) qs(5) f(1,3,4) st(4) by (simp add: nat_mult_distrib mult.commute)
  then show ?thesis using r qs(2) by (intro exI [of _ as] exI [of _ rs] exI [of _ env']) simp
qed

theorem reset_episode_winnable_witness:
  "\<exists>as rs env'. run (snd (reset demo_gen None demo_env)) as = Inr (rs, env')
     \<and> 0 < length as \<and> length as \<le> 9 \<and> result_terminated (last rs)
     \<and> (\<forall>r \<in> set rs. \<not> result_truncated r)"
proof -
  have "maze_connected (demo_gen (maze_size demo_env) None)"
    "walk_open (demo_gen (maze_size demo_env) None) (walk_goal (demo_gen (maze_size demo_env) None))"
    by code_simp+
  moreover have "maze_size demo_env = (3, 3)" by (simp add: demo_env_def)
  ultimately show ?thesis
    using reset_episode_winnable [OF demo_gen_ok demo_reachable, of None] by simp
qed

end
