(* ===== verification/Spec2Isabelle.thy ===== *)
theory Spec2Isabelle
  imports Play Connectivity
begin

text \<open>
  A verification development for \<^verbatim>\<open>maze_env\<close>, a Gymnasium environment in which an
  agent walks a generated binary maze that is drawn from a tileset.

  \<^bold>\<open>The program.\<close> Two components carry its logic. The tile classification engine,
  \<^verbatim>\<open>src/src/maze_env/graphics/Tilemap.py\<close>, turns the generator's maze (a list of
  rows, 0 for a passage) into a tilemap: it pads the maze with a border of EMPTY cells,
  classifies every passage cell in place by fifteen tests of its four neighbours
  (\<^verbatim>\<open>is_outer_left_wall\<close> .. \<^verbatim>\<open>is_center\<close>), then marks PLATFORM below the cells
  of seven wall kinds. The interaction state machine, \<^verbatim>\<open>src/src/maze_env/envs/MazeEnv.py\<close>,
  keeps the agent's position and score, moves the agent on \<^verbatim>\<open>step\<close> and builds a new
  maze and tilemap on \<^verbatim>\<open>reset\<close>; \<^verbatim>\<open>render\<close> and \<^verbatim>\<open>_draw\<close> hand the tilemap and
  the agent and goal markers to pygame. The maze generator (\<^verbatim>\<open>labyrinthine\<close>), the
  tileset images and pygame are external.

  \<^bold>\<open>Theories.\<close>
  \<^item> \<open>Prelude\<close>: grids as lists of rows (\<open>cell\<close>, \<open>set_cell\<close> for
    \<^verbatim>\<open>g[i][j] = v\<close>, \<open>rect\<close> for numpy's shape), Python's indexing and exceptions
    (\<open>py_nth\<close>, \<open>py_error\<close>), and the generic lemmas on nested range loops written as
    folds (\<open>fold_rows_cells\<close>, \<open>cell_fold_set_cells\<close>, \<open>cell_fold_mark_below\<close>).
  \<^item> \<open>Tile\<close>: the tile catalog, the enum \<^verbatim>\<open>Tile\<close>, whose module is not among the
    sources and is modelled from the specification.
  \<^item> \<open>Tilemap\<close>: the fifteen tests as \<^theory_text>\<open>fun\<close>s, the rule table
    \<open>wall_rules\<close> in the source's order, \<open>classify_cell\<close> (the body of the first
    loop), \<open>first_pass\<close>, \<open>mark_platform\<close> and \<open>platform_pass\<close> (the second loop),
    \<open>to_tiles\<close> and \<open>pad\<close> (the preparation), \<open>generate_map\<close>, the constructor
    \<open>make_tilemap\<close> and the draw list \<open>render_tilemap\<close>. Each loop is a fold over
    the grid it mutates, so that each test reads the grid as the earlier writes left it.
    Beside them a reference classification states each cell's kind directly:
    \<open>classify_pattern\<close> (the kind for each open/closed pattern of the four
    neighbours), \<open>first_tile\<close>, \<open>final_tile\<close> and \<open>tilemap_spec\<close>.
  \<^item> \<open>EnvState\<close>: the object of \<^verbatim>\<open>MazeEnv\<close> as the record \<open>maze_env\<close> (the
    fields \<^verbatim>\<open>size\<close>, \<^verbatim>\<open>width\<close>, \<^verbatim>\<open>height\<close>, \<^verbatim>\<open>agent\<close>, \<^verbatim>\<open>start\<close>,
    \<^verbatim>\<open>end\<close>, \<^verbatim>\<open>state\<close>, \<^verbatim>\<open>tilemap\<close>, \<^verbatim>\<open>score\<close>, \<^verbatim>\<open>surface\<close>,
    \<^verbatim>\<open>clock\<close>, and \<open>video\<close>, the state of pygame's display module, which is
    global to the process and carried with its only user), the constructor
    \<open>maze_env_init\<close> (which reads its render mode string with \<open>mode_of_string\<close>),
    \<open>get_observation\<close> and \<open>get_info\<close>.
  \<^item> \<open>Render\<close>: the render adapter, \<open>render\<close> (which starts pygame and creates the
    mode's surface, \<open>mode_surface\<close>, on first use), \<open>draw\<close> and \<open>close\<close>.
    pygame's surface and clock are reduced to their existence; the drawing is the list of
    fill and blit calls (\<open>draw_op\<close>), and its first call raises \<^verbatim>\<open>pygame.error\<close>
    (\<open>PygameError\<close>) on a window whose display module was shut down.
  \<^item> \<open>MazeEnv\<close>: \<open>reset\<close>, \<open>step\<close> (with \<open>step_move\<close>, its reward and move part),
    \<open>move_agent\<close> and \<open>move_target\<close>. A method takes the object and returns its
    result, \<open>Inl\<close> of the exception it raises, with the object as the method left it
    (fields assigned before an exception stay assigned). \<open>run\<close> is a host loop of
    steps; \<open>reachable\<close> is the inductive set of objects a program can reach by the
    constructor, \<^verbatim>\<open>reset\<close>, \<^verbatim>\<open>step\<close> and \<^verbatim>\<open>render\<close>, and \<open>env_inv\<close> its
    invariant.
  \<^item> \<open>Walk\<close>: an abstract step written from the specification's section 4.2
    (\<open>walk\<close>, \<open>walk_step\<close>: moves by direction vectors clamped to the maze's own
    bounds, goal and penalty from the maze's own size), the abstraction \<open>walk_of\<close>
    and its inverse \<open>lift_walk\<close>, and the lemma that \<^verbatim>\<open>step\<close> on an object keeping
    the invariant is this step, lifted (\<open>step_walk_Inr\<close>), through which the proofs
    about rewards and episodes reason.
  \<^item> \<open>Play\<close>: the registration of \<^verbatim>\<open>__init__.py\<close> (\<open>maze_v0\<close>), the play script
    \<^verbatim>\<open>main.py\<close> (\<open>main_env\<close>, \<open>keys_to_action\<close>, \<open>noop\<close>, \<open>main_play\<close>),
    Gymnasium's \<^verbatim>\<open>play\<close> loop (\<open>play\<close>, \<open>play_frame\<close>, \<open>play_frames\<close>, library
    code modelled from its documented behaviour) and the agent loop \<open>episode\<close>, a
    \<^theory_text>\<open>partial_function (option)\<close>: \<open>None\<close> is an episode that never ends.
  \<^item> \<open>Connectivity\<close>: the generator's promise of one connected path component,
    decided by an executable flood fill (\<open>neighbours\<close>, \<open>flood\<close>,
    \<open>maze_connected\<close>), paths of moves (\<open>cpath\<close>) with the cut of their loops,
    and the run that follows a shortest path to the goal.

  \<^bold>\<open>Interfaces.\<close> \<^verbatim>\<open>reset\<close> calls the generator and the \<^verbatim>\<open>Tilemap\<close>
  constructor: the generator is a parameter of type \<open>generator\<close> and its contract
  \<open>gen_ok\<close> (a rectangle of the requested size with a passage at \<open>(0, 0)\<close>, from the
  specification of \<^verbatim>\<open>labyrinthine\<close>) is a hypothesis of the theorems about reachable
  states; the tilemap is \<open>make_tilemap\<close> itself, and the invariant records that it is
  the reference map of the current maze (\<open>env_inv_tilemap\<close>). The generator's
  second promise, that every passage is connected to the start (\<open>maze_connected\<close>),
  is a hypothesis only of the winnability theorem, together with the goal being a
  passage, which \<^verbatim>\<open>labyrinthine\<close>'s mazes of odd size satisfy (their cells at even
  coordinates are passages) but the specification does not state. \<^verbatim>\<open>_draw\<close> calls
  \<^verbatim>\<open>Tilemap.render\<close>, modelled by \<open>render_tilemap\<close>.

  \<^bold>\<open>What is proved about the tilemap.\<close> The in-place passes compute the reference
  (C1, \<open>Tilemap.generate_map_equiv\<close>): the first pass because its tests never read the
  cell they classify and its writes never change which cells are open
  (\<open>first_pass_spec\<close>), the platform pass because a platform is never written onto a
  cell whose kind it still has to read (\<open>platform_pass_spec\<close>). The fifteen tests are
  mutually exclusive on any grid (C2). Platforms lie exactly below the seven
  platform-carrying kinds (C3), passages become non-EMPTY kinds and walls EMPTY or
  PLATFORM (C4), and the map keeps its padding (C5).

  \<^bold>\<open>What is proved about the environment.\<close> Every operation keeps \<open>env_inv\<close>
  (\<open>step_inv\<close>, \<open>reset_inv\<close>, \<open>render_inv\<close>, and \<open>reachable_inv\<close> by rule
  induction). Hence in every reachable state the agent is in bounds and on a passage
  (C6), and a step after a reset never raises (C7). Reaching the goal pays 1 and
  terminates (C8), but the goal is not absorbing: pushing into the border from it pays
  1 again (C9). A reward is 1 exactly on termination, 0 with the object unchanged, or a
  penalty in \<open>[-2/(w h), 0)\<close> (C10); a step writes only the agent and the score and
  reports the new object's observation (C28). The observation decodes back to the
  agent's position for every rectangular size (C11). \<^verbatim>\<open>reset\<close> forgets the previous
  episode (C12). Runs of zero-reward steps keep the score (C13). The constructor accepts
  exactly odd sizes (C14); before the first reset a step raises AttributeError in the
  drawing modes and TypeError for a move otherwise (C15); an unknown render mode makes
  \<^verbatim>\<open>reset\<close> fail after it has installed the new maze (C16). Across the components:
  the draw list of a reachable state stays inside the surface that \<^verbatim>\<open>render\<close>
  creates, which the padded tilemap covers exactly (C17), and \<^verbatim>\<open>render\<close> returns that
  list as the frame in the \<^verbatim>\<open>rgb_array\<close> mode (C18). The invariant also records that
  a surface is the mode's and exists only while the display module is on
  (\<open>live_surface\<close>). \<^verbatim>\<open>close\<close> breaks that: it shuts pygame down but keeps
  \<^verbatim>\<open>self.surface\<close>, so a later \<^verbatim>\<open>render\<close> in the \<^verbatim>\<open>human\<close> mode raises
  \<^verbatim>\<open>pygame.error\<close> (C25). A \<^verbatim>\<open>render\<close> before the first reset raises
  AttributeError after creating the surface and clock (C27).

  \<^bold>\<open>Running the program.\<close> \<^verbatim>\<open>main.py\<close> never raises whatever keys are pressed
  (C19); an episode's return is at most 1, below the registered
  \<^verbatim>\<open>reward_threshold\<close> of 100 (C20); the agent loop that always pushes up ends every
  episode, truncated except on a 1x1 maze (C21), and the one that only sends the no-op
  action never ends it (C22). Under the play script the score never exceeds 1 and stays
  within two penalties of the floor (C23), and the key map agrees with the directions
  documented for the actions (C24). When the generator keeps its connectivity promise
  and the goal is a passage, every episode a reset starts can be won: the start and the
  goal are joined by a path of distinct cells, at most \<open>w h\<close> of them, and driving
  the agent along it terminates on the goal with no truncated step (C26,
  \<open>Connectivity.reset_episode_winnable\<close>).

  \<^bold>\<open>Numbers and loops.\<close> Python's integers are \<open>int\<close>; sizes are not bounded. The
  score, a Python float, is an exact rational (\<open>rat\<close>), and so is the penalty
  \<open>-1/(w h)\<close>, which Python computes as a rounded float quotient. In the model the
  penalties are multiples of \<open>1/(w h)\<close> (\<open>on_lattice\<close>), so the score meets the
  floor \<open>-2\<close> exactly and \<^verbatim>\<open>step\<close>'s test \<^verbatim>\<open>score == reward_range[0]\<close>
  fires; with floats the sum almost never equals \<open>-2\<close> exactly, the test does not fire
  and the score sinks below the floor (finding at \<^verbatim>\<open>MazeEnv.py:88\<close>). The theorems
  are stated so that they hold of the float program too: none of them asserts that the
  floor test fires, that the score stays at or above \<open>-2\<close>, or how many steps
  truncation takes; where the score's size matters (C10, C23) the bound leaves room for
  one rounded penalty, and the liveness theorems (C21, C26) only assert that the episode
  ends, or that no step on a path of at most \<open>w h\<close> cells is truncated. The passes of
  the tilemap are folds over finite ranges and a host's steps a finite list of actions.
  The only loop that need not end is the agent loop \<open>episode\<close>, defined with
  \<^theory_text>\<open>partial_function (option)\<close>; its termination is proved as \<open>Some\<close> (C21)
  and its divergence as \<open>None\<close> (C22), by induction on the number of remaining
  penalised steps and by the fixpoint induction \<open>episode.raw_induct\<close>. Witnesses use
  the sample generator \<open>demo_gen\<close> and object \<open>demo_env\<close> (a 3x3 maze) and are
  evaluated by \<open>code_simp\<close>. The flood fill runs as many rounds as the maze has cells,
  enough to reach every cell a path reaches since a shortest path repeats no cell; only
  its soundness (a cell it reaches is joined to the start, \<open>flood_sound\<close>) is used.

  \<^bold>\<open>Not modelled.\<close> The maze generator (an external library; its contract is a
  hypothesis), pygame's pixels, window, event pump and frame-rate timing, the tileset
  images (\<^verbatim>\<open>Tileset\<close>, not among the sources), the rest of pygame's state beyond
  the display module (\<^verbatim>\<open>pygame.quit\<close> in \<^verbatim>\<open>close\<close> is modelled by its effect on
  the display), Gymnasium's seeding in
  \<^verbatim>\<open>super().reset\<close>, and the wrappers that \<^verbatim>\<open>gym.make\<close> adds (the order check and
  the passive environment checker, which only raise on calls out of order or warn): the
  play script is modelled on the bare environment.
\<close>

section \<open>Properties across the components\<close>

text \<open>
  C17. In every state reached after a reset, \<^verbatim>\<open>_draw\<close> succeeds and draws a list
  of one fill, one sprite per cell of the padded tilemap and the two markers, whose
  every blit lies inside the surface of \<^verbatim>\<open>(self.height, self.width)\<close> pixels that
  \<^verbatim>\<open>render\<close> creates: the tilemap's \<open>h + 2\<close> rows by \<open>w + 2\<close> columns of 32-pixel
  tiles fill it exactly, and the agent and the goal fall on inner tiles.
\<close>

theorem draw_within_surface:
  assumes "gen_ok gen" "reachable gen env" "state env \<noteq> None"
  shows "\<exists>ops. draw env = Inr ops
           \<and> length ops = nat (px_height env div 32) * nat (px_width env div 32) + 3
           \<and> (\<forall>s x y. Blit s (x, y) \<in> set ops
                  \<longrightarrow> 0 \<le> x \<and> x + 32 \<le> px_height env \<and> 0 \<le> y \<and> y + 32 \<le> px_width env)"
proof -
  have inv: "env_inv env" by (rule reachable_inv [OF assms(2,1)])
  obtain g where g: "state env = Some g" using assms(3) by auto
  obtain w h where sz: "maze_size env = (w, h)" by (cases "maze_size env")
  have pos: "0 < w" "0 < h" and px: "px_width env = w * 32 + 64" "px_height env = h * 32 + 64"
    and ag: "0 \<le> fst (agent env)" "fst (agent env) < h" "0 \<le> snd (agent env)" "snd (agent env) < w"
    and goal: "end_cell env = (h - 1, w - 1)"
    using inv by (auto simp: env_inv_def Let_def sz)
  let ?tm = "\<lparr>tm_width = nat h, tm_height = nat w, tm_tiles = tilemap_spec g\<rparr>"
  have tm: "env_tilemap env = Some ?tm" and r: "rect (nat h + 2) (nat w + 2) (tm_tiles ?tm)"
    using env_inv_tilemap [OF inv g] by (simp_all add: sz)
  let ?ops = "Fill (33, 30, 29) # render_tilemap ?tm @
              [Blit (Tileset_image 12) ((fst (agent env) + 1) * 32, (snd (agent env) + 1) * 32),
               Blit (Tileset_image 13) ((fst (end_cell env) + 1) * 32, (snd (end_cell env) + 1) * 32)]"
  have d: "draw env = Inr ?ops" using env_inv_video [OF inv] by (simp add: draw_def tm)
  have "length ?ops = (nat h + 2) * (nat w + 2) + 3"
    using render_tilemap_length [OF r] by simp
  moreover have "nat (px_height env div 32) = nat h + 2" "nat (px_width env div 32) = nat w + 2"
    using pos by (simp_all add: px)
  moreover have "0 \<le> x \<and> x + 32 \<le> px_height env \<and> 0 \<le> y \<and> y + 32 \<le> px_width env"
    if b: "Blit s (x, y) \<in> set ?ops" for s x y
  proof (cases "Blit s (x, y) \<in> set (render_tilemap ?tm)")
    case True
    then obtain i j where ij: "i < nat h + 2" "j < nat w + 2" and xy: "x = int i * 32" "y = int j * 32"
      using render_tilemap_blit [OF r _ True] by auto
    have "int i \<le> h + 1" "int j \<le> w + 1" using ij pos by linarith+
    then show ?thesis by (simp add: px xy)
  next
    case False
    then show ?thesis using b ag pos by (auto simp: px goal)
  qed
  ultimately show ?thesis using d by auto
qed

theorem draw_within_surface_witness:
  "\<exists>ops. draw (snd (reset demo_gen None demo_env)) = Inr ops \<and> length ops = 28"
proof -
  have "px_height (snd (reset demo_gen None demo_env)) = 160" "px_width (snd (reset demo_gen None demo_env)) = 160"
    by code_simp+
  then show ?thesis
    using draw_within_surface [OF demo_gen_ok demo_reset_reachable] demo_reset_state by auto
qed

text \<open>
  C18. In every state reached after a reset, \<^verbatim>\<open>render\<close> in the \<^verbatim>\<open>human\<close> and
  \<^verbatim>\<open>rgb_array\<close> modes succeeds, leaves a surface and a clock behind, and returns the
  frame that \<^verbatim>\<open>_draw\<close> produced in the \<^verbatim>\<open>rgb_array\<close> mode and nothing in the
  \<^verbatim>\<open>human\<close> mode.
\<close>

theorem render_after_reset:
  assumes "gen_ok gen" "reachable gen env" "state env \<noteq> None"
    and "render_mode env \<in> {Some Human, Some Rgb_array}"
  shows "\<exists>ops. draw env = Inr ops
           \<and> fst (render env) = Inr (if render_mode env = Some Rgb_array then Some ops else None)
           \<and> surface (snd (render env)) \<noteq> None \<and> clock (snd (render env))"
proof -
  have inv: "env_inv env" by (rule reachable_inv [OF assms(2,1)])
  obtain g where g: "state env = Some g" using assms(3) by auto
  obtain tm where tm: "env_tilemap env = Some tm" using env_inv_tilemap [OF inv g] by auto
  show ?thesis by (rule render_drawn [OF tm assms(4) env_inv_video [OF inv]])
qed

theorem render_after_reset_witness:
  "\<exists>ops. draw (snd (reset demo_gen None (demo_env\<lparr>render_mode := Some Rgb_array\<rparr>))) = Inr ops
     \<and> fst (render (snd (reset demo_gen None (demo_env\<lparr>render_mode := Some Rgb_array\<rparr>)))) = Inr (Some ops)"
proof -
  let ?e = "demo_env\<lparr>render_mode := Some Rgb_array\<rparr>"
  have "maze_env_init (Square 3) (Some ''rgb_array'') = Inr ?e"
    by (simp add: maze_env_init_def mode_of_string_def demo_env_def)
  then have "reachable demo_gen ?e" by (rule reachable.init) (simp_all add: demo_env_def)
  then have r: "reachable demo_gen (snd (reset demo_gen None ?e))" by (rule reachable.reset)
  have "state (snd (reset demo_gen None ?e)) \<noteq> None" "render_mode (snd (reset demo_gen None ?e)) = Some Rgb_array"
    by code_simp+
  then show ?thesis using render_after_reset [OF demo_gen_ok r] by auto
qed

text \<open>
  C25. \<^verbatim>\<open>close\<close> shuts pygame down but leaves \<^verbatim>\<open>self.surface\<close> set, so a later
  \<^verbatim>\<open>render\<close> does not start pygame again: in the \<^verbatim>\<open>human\<close> mode it raises
  \<^verbatim>\<open>pygame.error\<close> at the first drawing call and changes nothing; in the other modes it
  returns what it would have returned without the \<^verbatim>\<open>close\<close>.
\<close>

theorem render_after_close:
  assumes "gen_ok gen" "reachable gen env" "state env \<noteq> None"
  shows "fst (render (close env)) =
           (if render_mode env = Some Human then Inl PygameError else fst (render env))
         \<and> (render_mode env = Some Human \<longrightarrow> snd (render (close env)) = close env)"
proof -
  have inv: "env_inv env" by (rule reachable_inv [OF assms(2,1)])
  note live = env_inv_surface(1) [OF inv] and drawn = env_inv_surface(2) [OF inv assms(3)]
  show ?thesis
  proof (cases "render_mode env")
    case None
    then show ?thesis using live by (auto simp: close_def live_surface_def)
  next
    case (Some m)
    show ?thesis
    proof (cases m)
      case Human
      then have "surface env = Some Display_surface" "video env" "clock env"
        using live drawn Some by (auto simp: live_surface_def mode_surface_def)
      then show ?thesis using Some Human by (simp add: close_def render_def draw_def Let_def)
    next
      case Rgb_array
      then have "surface env = Some Buffer_surface"
        using live drawn Some by (auto simp: live_surface_def mode_surface_def)
      then show ?thesis using Some Rgb_array by (simp add: close_def render_def draw_clock draw_video Let_def split: sum.split)
    next
      case (Other_mode s)
      then have "surface env = None" using live Some by (auto simp: live_surface_def mode_surface_def)
      then show ?thesis using Some Other_mode by (simp add: close_def)
    qed
  qed
qed

theorem render_after_close_witness:
  "fst (render (close (snd (reset demo_gen None (demo_env\<lparr>render_mode := Some Human\<rparr>)))))
     = Inl PygameError"
proof -
  let ?e = "snd (reset demo_gen None (demo_env\<lparr>render_mode := Some Human\<rparr>))"
  note r = demo_human_reachable
  have "state ?e \<noteq> None" "render_mode ?e = Some Human" by code_simp+
  then show ?thesis using render_after_close [OF demo_gen_ok r] by simp
qed

text \<open>
  C27. \<^verbatim>\<open>render\<close> before the first \<^verbatim>\<open>reset\<close>, in either drawing mode, starts
  pygame, creates the surface and the clock, and then raises AttributeError in
  \<^verbatim>\<open>_draw\<close>, since there is no tilemap yet; the surface and clock it created stay.
\<close>

theorem render_before_reset:
  assumes "maze_env_init sz mode = Inr env" "mode \<in> {Some ''human'', Some ''rgb_array''}"
  shows "render env = (Inl AttributeError,
                       env\<lparr>video := True, surface := mode_surface (mode_of_string (the mode)),
                            clock := True\<rparr>)"
proof -
  have "surface env = None" "env_tilemap env = None" "render_mode env = map_option mode_of_string mode"
    using assms(1) by (auto simp: maze_env_init_def Let_def split: size_arg.splits if_splits prod.splits)
  then show ?thesis
    using assms(2) by (auto simp: render_def draw_def mode_surface_def mode_of_string_def Let_def)
qed

theorem render_before_reset_witness:
  "render (demo_env\<lparr>render_mode := Some Human\<rparr>) =
     (Inl AttributeError, demo_env\<lparr>render_mode := Some Human, video := True,
                                  surface := Some Display_surface, clock := True\<rparr>)"
proof -
  have "maze_env_init (Square 3) (Some ''human'') = Inr (demo_env\<lparr>render_mode := Some Human\<rparr>)"
    by (simp add: maze_env_init_def mode_of_string_def demo_env_def)
  from render_before_reset [OF this] show ?thesis by (simp add: mode_surface_def mode_of_string_def)
qed

end
